theory Spec2Isabelle
  imports Main "HOL-Library.Word"
begin

section \<open>The parts of Go's standard library the server relies on\<close>

text \<open>
  Go strings are byte sequences; they are modelled as \<open>string\<close> (a list of 8-bit
  characters).  The functions of this section are not code of the repository: they
  follow the documented behaviour of the packages \<open>strconv\<close>, \<open>strings\<close> and
  \<open>os\<close> as far as the server uses them.
\<close>

datatype num_error = ErrSyntax | ErrRange

definition maxUint64 :: nat where
  "maxUint64 = 2 ^ 64 - 1"

text \<open>\<open>lower(c) = c | ('x' - 'X')\<close>: bit 5 of the byte is set.\<close>

definition lower :: "nat \<Rightarrow> nat" where
  "lower b = (if (b div 32) mod 2 = 0 then b + 32 else b)"

text \<open>The digit a byte stands for in \<open>strconv.ParseUint\<close>, if any.\<close>

definition digit_of :: "char \<Rightarrow> nat option" where
  "digit_of c =
     (let b = (of_char c :: nat) in
      if 48 \<le> b \<and> b \<le> 57 then Some (b - 48)
      else if 97 \<le> lower b \<and> lower b \<le> 122 then Some (lower b - 97 + 10)
      else None)"

text \<open>
  The digit loop of \<open>strconv.ParseUint(s, base, 64)\<close> on the unsigned 64-bit
  accumulator \<open>n\<close>; both overflow tests are the library's, with the wrap-around of
  the accumulator written out.
\<close>

fun parse_digits :: "nat \<Rightarrow> nat \<Rightarrow> string \<Rightarrow> num_error + nat" where
  "parse_digits base n [] = Inr n"
| "parse_digits base n (c # cs) =
     (case digit_of c of
        None \<Rightarrow> Inl ErrSyntax
      | Some d \<Rightarrow>
          if d \<ge> base then Inl ErrSyntax
          else if n \<ge> maxUint64 div base + 1 then Inl ErrRange
          else
            (let nb = (n * base) mod 2 ^ 64;
                 n1 = (nb + d) mod 2 ^ 64
             in if n1 < nb \<or> n1 > maxUint64 then Inl ErrRange
                else parse_digits base n1 cs))"

definition ParseUint :: "string \<Rightarrow> nat \<Rightarrow> num_error + nat" where
  "ParseUint s base = (if s = [] then Inl ErrSyntax else parse_digits base 0 s)"

text \<open>
  \<open>strconv.Atoi\<close> on a 64-bit platform: an optional sign, then
  \<open>ParseUint\<close> in base 10, then the range test of \<open>int64\<close>.  (The library's fast
  path for short strings computes the same result.)
\<close>

definition Atoi :: "string \<Rightarrow> num_error + int" where
  "Atoi s =
     (case s of
        [] \<Rightarrow> Inl ErrSyntax
      | c # cs \<Rightarrow>
          (let neg = (c = CHR ''-'');
               s' = (if c = CHR ''+'' \<or> c = CHR ''-'' then cs else s)
           in case ParseUint s' 10 of
                Inl e \<Rightarrow> Inl e
              | Inr un \<Rightarrow>
                  if \<not> neg \<and> un \<ge> 2 ^ 63 then Inl ErrRange
                  else if neg \<and> un > 2 ^ 63 then Inl ErrRange
                  else Inr (if neg then - int un else int un)))"

text \<open>\<open>strconv.FormatUint(n, 10)\<close>: the decimal digits of \<open>n\<close>, most significant first.\<close>

definition digit_char :: "nat \<Rightarrow> char" where
  "digit_char d = ''0123456789'' ! d"

fun FormatUint :: "nat \<Rightarrow> string" where
  "FormatUint n =
     (if n < 10 then [digit_char n] else FormatUint (n div 10) @ [digit_char (n mod 10)])"

text \<open>
  \<open>strings.Index(s, sep)\<close> for a separator of one byte: the index of its first
  occurrence, or \<open>-1\<close>.
\<close>

fun Index :: "string \<Rightarrow> char \<Rightarrow> int" where
  "Index [] sep = - 1"
| "Index (x # xs) sep =
     (if x = sep then 0 else (let i = Index xs sep in if i = - 1 then - 1 else i + 1))"

text \<open>
  \<open>strings.Split(s, sep)\<close> for a separator of one byte: the pieces between the
  occurrences of the separator, one more than there are occurrences.
\<close>

fun Split :: "string \<Rightarrow> char \<Rightarrow> string list" where
  "Split [] sep = [[]]"
| "Split (x # xs) sep =
     (if x = sep then [] # Split xs sep
      else (x # hd (Split xs sep)) # tl (Split xs sep))"

text \<open>\<open>strings.ReplaceAll(s, old, "")\<close> for \<open>old\<close> of one byte.\<close>

definition ReplaceAll_empty :: "string \<Rightarrow> char \<Rightarrow> string" where
  "ReplaceAll_empty s old = filter (\<lambda>c. c \<noteq> old) s"

text \<open>
  The process environment, as \<open>key=value\<close> pairs; \<open>os.Environ\<close> lists them in
  that form, and \<open>os.Getenv\<close> yields the empty string for a variable that is unset.
\<close>

type_synonym environment = "(string \<times> string) list"

definition Environ :: "environment \<Rightarrow> string list" where
  "Environ e = map (\<lambda>(k, v). k @ ''='' @ v) e"

definition Getenv :: "environment \<Rightarrow> string \<Rightarrow> string" where
  "Getenv e k = (case map_of e k of None \<Rightarrow> [] | Some v \<Rightarrow> v)"

section \<open>Development mode\<close>

definition IsDevelopment :: "environment \<Rightarrow> bool" where
  "IsDevelopment e =
     (let envVar = Getenv e ''DEVELOPMENT'' in
      if envVar \<noteq> [] then
        (case Atoi envVar of
           Inl err \<Rightarrow> False
         | Inr isDevelopment \<Rightarrow> isDevelopment = 1)
      else False)"


text \<open>
  \<open>setupLogger\<close> chooses the encoding of the log output from the mode (the rest of
  the logger's configuration is the library's).
\<close>

definition setupLogger_encoding :: "environment \<Rightarrow> string" where
  "setupLogger_encoding e = (if \<not> IsDevelopment e then ''json'' else ''console'')"

section \<open>Requests, responses and handlers\<close>

text \<open>\<open>http.Header\<close>: each (canonical) key has a list of values.\<close>

type_synonym header_map = "string \<rightharpoonup> string list"

definition Header_Get :: "header_map \<Rightarrow> string \<Rightarrow> string" where
  "Header_Get h k = (case h k of None \<Rightarrow> [] | Some [] \<Rightarrow> [] | Some (v # vs) \<Rightarrow> v)"

definition Header_Set :: "header_map \<Rightarrow> string \<Rightarrow> string \<Rightarrow> header_map" where
  "Header_Set h k v = h(k \<mapsto> [v])"

text \<open>
  The parts of \<open>*http.Request\<close> the server reads.  \<open>Query\<close> is what
  \<open>r.URL.Query()\<close> returns, \<open>deadline\<close> the deadline of \<open>r.Context()\<close> in
  nanoseconds, if it has one.
\<close>

record Request =
  Method :: string
  URL :: string
  Path :: string
  Query :: "string \<rightharpoonup> string list"
  Proto :: string
  Header :: header_map
  Host :: string
  RemoteAddr :: string
  deadline :: "nat option"

text \<open>
  The response of \<open>net/http\<close> (go 1.12, as \<open>go.mod\<close> has it) as a handler
  sees it: the first \<open>WriteHeader\<close> fixes the status, a \<open>Write\<close> before any
  \<open>WriteHeader\<close> fixes it to 200, and a \<open>Write\<close> reports how many bytes the
  connection took (\<open>room\<close> is what the connection still accepts; a short write
  comes with an error).  A \<open>WriteHeader\<close> after the status is fixed is logged by
  the library and changes nothing; a first \<open>WriteHeader\<close> with a code outside 100
  to 999 panics (\<open>checkWriteHeaderCode\<close>).
\<close>

record response =
  wroteHeader :: bool
  res_status :: int
  res_header :: header_map
  res_body :: string
  room :: nat

text \<open>
  \<open>http.ResponseWriter\<close> is an interface.  Its implementations here are the
  library's response and the \<open>statusWriter\<close> of the middleware, a struct of the
  wrapped writer, \<open>status\<close> and \<open>length\<close> (both \<open>int\<close>, 64 bits wide).
\<close>

datatype ResponseWriter =
    Response response
  | StatusWriter (wrapped: ResponseWriter) (sw_status: int) (sw_length: int)

text \<open>Addition on Go's 64-bit \<open>int\<close>, with the wrap-around written out.\<close>

definition add_int64 :: "int \<Rightarrow> int \<Rightarrow> int" where
  "add_int64 a b = (a + b + 2 ^ 63) mod 2 ^ 64 - 2 ^ 63"

definition invalid_code :: "int \<Rightarrow> bool" where
  "invalid_code code = (code < 100 \<or> code > 999)"

text \<open>
  \<open>WriteHeader\<close>: the writer after the call, and whether the call panics.  The
  \<open>statusWriter\<close> stores the status and then calls the writer it wraps, so it has
  stored the status also when that call panics.
\<close>

fun WriteHeader :: "ResponseWriter \<Rightarrow> int \<Rightarrow> ResponseWriter" where
  "WriteHeader (Response c) code =
     Response (if wroteHeader c \<or> invalid_code code then c
               else c\<lparr>wroteHeader := True, res_status := code\<rparr>)"
| "WriteHeader (StatusWriter w st len) code = StatusWriter (WriteHeader w code) code len"

fun WriteHeader_panics :: "ResponseWriter \<Rightarrow> int \<Rightarrow> bool" where
  "WriteHeader_panics (Response c) code = (\<not> wroteHeader c \<and> invalid_code code)"
| "WriteHeader_panics (StatusWriter w st len) code = WriteHeader_panics w code"

text \<open>\<open>Write\<close> returns the writer, the number of bytes written and whether it failed.\<close>

fun Write :: "ResponseWriter \<Rightarrow> string \<Rightarrow> ResponseWriter \<times> int \<times> bool" where
  "Write (Response c) b =
     (let c1 = (if wroteHeader c then c else c\<lparr>wroteHeader := True, res_status := 200\<rparr>);
          n = min (length b) (room c1)
      in (Response (c1\<lparr>res_body := res_body c1 @ take n b, room := room c1 - n\<rparr>),
          int n, n < length b))"
| "Write (StatusWriter w st len) b =
     (let st1 = (if st = 0 then 200 else st);
          (w1, n, err) = Write w b
      in (StatusWriter w1 st1 (add_int64 len n), n, err))"

text \<open>\<open>w.Header().Set(k, v)\<close>; the \<open>statusWriter\<close> inherits \<open>Header\<close>.\<close>

fun SetHeader :: "ResponseWriter \<Rightarrow> string \<Rightarrow> string \<Rightarrow> ResponseWriter" where
  "SetHeader (Response c) k v = Response (c\<lparr>res_header := Header_Set (res_header c) k v\<rparr>)"
| "SetHeader (StatusWriter w st len) k v = StatusWriter (SetHeader w k v) st len"

text \<open>
  The library's response underneath the wrappers, and the status of the status line
  the library writes for it (200 when the handler fixed none).  Whether that line
  reaches the client is the matter of \<open>serve\<close> below.
\<close>

fun connection :: "ResponseWriter \<Rightarrow> response" where
  "connection (Response c) = c"
| "connection (StatusWriter w st len) = connection w"

definition sent_status :: "response \<Rightarrow> int" where
  "sent_status c = (if wroteHeader c then res_status c else 200)"


text \<open>
  What lies outside the process and what the handlers keep between requests: the
  environment, the files the label reader opens (a path either fails to open, or the
  scanner yields its lines and then its final error, if any), the two package-level
  caches (\<open>nil\<close> is \<open>None\<close>), the clock in nanoseconds, and the access log.
\<close>

datatype labels_file = OpenError string | Scanned "string list" "string option"

record access =
  a_remote :: string
  a_time :: nat
  a_method :: string
  a_url :: string
  a_proto :: string
  a_status :: int
  a_length :: int
  a_millis :: nat

record World =
  environment :: environment
  files :: "string \<Rightarrow> labels_file"
  podLabels :: "(string \<rightharpoonup> string) option"
  environmentVariables :: "(string \<rightharpoonup> string) option"
  now :: nat
  logged :: "access list"

text \<open>
  A handler either returns or panics; either way the writer and the world are as the
  handler left them.
\<close>

datatype 'a outcome = Ok 'a | Panic string

datatype Result =
    Returned ResponseWriter World
  | Panicked string ResponseWriter World

type_synonym Handler = "ResponseWriter \<Rightarrow> Request \<Rightarrow> World \<Rightarrow> Result"

section \<open>Middleware\<close>

text \<open>
  \<open>adapt\<close> runs over the adapters in the order of the arguments, each wrapping what
  the ones before it have built.
\<close>

fun adapt :: "'h \<Rightarrow> ('h \<Rightarrow> 'h) list \<Rightarrow> 'h" where
  "adapt h [] = h"
| "adapt h (middlewareFn # middleware) = adapt (middlewareFn h) middleware"

definition logHTTPRequest :: "Handler \<Rightarrow> Handler" where
  "logHTTPRequest h = (\<lambda>w r s.
     let start = now s in
     case h (StatusWriter w 0 0) r s of
       Panicked msg sw s1 \<Rightarrow> Panicked msg (wrapped sw) s1
     | Returned sw s1 \<Rightarrow>
         let durationInMilliSeconds = (now s1 - start) div 1000000 in
         Returned (wrapped sw)
           (s1\<lparr>logged := logged s1 @
              [\<lparr>a_remote = RemoteAddr r, a_time = now s1, a_method = Method r,
                a_url = URL r, a_proto = Proto r, a_status = sw_status sw,
                a_length = sw_length sw, a_millis = durationInMilliSeconds\<rparr>]\<rparr>))"

definition requestTimeoutDuration :: nat where
  "requestTimeoutDuration = 60 * 1000000000"

text \<open>\<open>context.WithTimeout\<close>: the earlier of the parent's deadline and now + d.\<close>

definition WithTimeout :: "nat option \<Rightarrow> nat \<Rightarrow> nat \<Rightarrow> nat option" where
  "WithTimeout parent t d =
     (case parent of None \<Rightarrow> Some (t + d) | Some p \<Rightarrow> Some (min p (t + d)))"

definition addRequestTimeout :: "Handler \<Rightarrow> Handler" where
  "addRequestTimeout h = (\<lambda>w r s.
     h w (r\<lparr>deadline := WithTimeout (deadline r) (now s) requestTimeoutDuration\<rparr>) s)"

text \<open>
  The calls a handler can make on its writer, and the handler that makes a given
  sequence of them: it stops at the first call that panics (the library's message
  also names the code) and returns after the last.
\<close>

datatype call = CallWriteHeader int | CallWrite string | CallSetHeader string string

fun perform :: "ResponseWriter \<Rightarrow> call \<Rightarrow> ResponseWriter" where
  "perform w (CallWriteHeader code) = WriteHeader w code"
| "perform w (CallWrite b) = fst (Write w b)"
| "perform w (CallSetHeader k v) = SetHeader w k v"

fun panics :: "ResponseWriter \<Rightarrow> call \<Rightarrow> bool" where
  "panics w (CallWriteHeader code) = WriteHeader_panics w code"
| "panics w (CallWrite b) = False"
| "panics w (CallSetHeader k v) = False"

fun calling :: "call list \<Rightarrow> Handler" where
  "calling [] w r s = Returned w s"
| "calling (c # cs) w r s =
     (if panics w c then Panicked ''invalid WriteHeader code'' (perform w c) s
      else calling cs (perform w c) r s)"

text \<open>What a handler's run gave: whether it returned, the writer and the world.\<close>

fun returned :: "Result \<Rightarrow> bool" where
  "returned (Returned w s) = True"
| "returned (Panicked msg w s) = False"

fun writer_of :: "Result \<Rightarrow> ResponseWriter" where
  "writer_of (Returned w s) = w"
| "writer_of (Panicked msg w s) = w"

fun world_of :: "Result \<Rightarrow> World" where
  "world_of (Returned w s) = s"
| "world_of (Panicked msg w s) = s"

text \<open>
  Of a sequence of calls: the status codes of its \<open>WriteHeader\<close> calls, the
  arguments of its \<open>Write\<close> calls, and the byte counts those \<open>Write\<close> calls
  return when the sequence is made on the writer \<open>w\<close>.
\<close>

fun written_codes :: "call list \<Rightarrow> int list" where
  "written_codes [] = []"
| "written_codes (CallWriteHeader code # cs) = code # written_codes cs"
| "written_codes (c # cs) = written_codes cs"

fun writes :: "call list \<Rightarrow> string list" where
  "writes [] = []"
| "writes (CallWrite b # cs) = b # writes cs"
| "writes (c # cs) = writes cs"

fun accepted :: "ResponseWriter \<Rightarrow> call list \<Rightarrow> int list" where
  "accepted w [] = []"
| "accepted w (CallWrite b # cs) = fst (snd (Write w b)) # accepted (fst (Write w b)) cs"
| "accepted w (c # cs) = accepted (perform w c) cs"

section \<open>The trace header\<close>

definition fix_request :: "Request \<Rightarrow> Request" where
  "fix_request r =
     (let httpHeader = ''X-Cloud-Trace-Context'';
          h = Header_Get (Header r) httpHeader
      in if h \<noteq> [] then
           (let slash = Index h (CHR ''/'') in
            if slash \<noteq> - 1 then
              (let tracestr = take (nat slash) h;
                   h1 = drop (nat (slash + 1)) h;
                   semicolon = Index h1 (CHR '';'')
               in if semicolon \<noteq> - 1 then
                    (let spanstr = take (nat semicolon) h1;
                         h2 = drop (nat (semicolon + 1)) h1;
                         spanstr1 =
                           (case ParseUint spanstr 10 of
                              Inr u \<Rightarrow> spanstr
                            | Inl err \<Rightarrow>
                                (case ParseUint spanstr 16 of
                                   Inr n \<Rightarrow> FormatUint (n mod 2 ^ 32)
                                 | Inl err1 \<Rightarrow> spanstr));
                         convertedHeader = tracestr @ ''/'' @ spanstr1 @ '';'' @ h2
                     in r\<lparr>Header := Header_Set (Header r) httpHeader convertedHeader\<rparr>)
                  else r)
            else r)
         else r)"

definition fixTracingHeader :: "Handler \<Rightarrow> Handler" where
  "fixTracingHeader h = (\<lambda>w r s. h w (fix_request r) s)"


section \<open>Handlers\<close>

text \<open>
  The values the handlers encode: strings, times, lists and string-keyed maps (and
  whatever \<open>json.Unmarshal\<close> decoded from a called service, of the same shape).
\<close>

datatype json =
    JString string
  | JTime nat
  | JArray "json list"
  | JObject "string \<Rightarrow> json option"

definition json_of_map :: "(string \<rightharpoonup> string) \<Rightarrow> json" where
  "json_of_map m = JObject (\<lambda>k. map_option JString (m k))"

definition json_of_values :: "(string \<rightharpoonup> string list) \<Rightarrow> json" where
  "json_of_values m = JObject (\<lambda>k. map_option (\<lambda>vs. JArray (map JString vs)) (m k))"

text \<open>
  What the handlers get from libraries and from the network: the outcome of
  \<open>DefaultHTTPClient.Get\<close> on a URL (the call fails, reading the body fails, or the
  body arrives) with the time it took, the JSON decoder and the JSON encoder.
\<close>

datatype get_result = GetFailed string | ReadFailed string | GotBody string

record lib =
  Get :: "string \<Rightarrow> get_result \<times> nat"
  Unmarshal :: "string \<Rightarrow> string + json"
  Encode :: "json \<Rightarrow> string"

record service =
  name :: string

definition newService :: "string \<Rightarrow> service" where
  "newService n = \<lparr>name = n\<rparr>"

text \<open>
  The handlers call \<open>WriteHeader\<close> with \<open>http.StatusOK\<close>, 200, for which it
  returns.
\<close>

definition healthCheck :: Handler where
  "healthCheck = (\<lambda>w r s. Returned (WriteHeader w 200) s)"

text \<open>
  The loop of \<open>getServiceLabels\<close> over the scanned lines.  \<open>pair[1]\<close> is read
  without a check: on a line that splits into one piece the index is out of range and
  the function panics, leaving in the cache the labels of the lines before.
\<close>

fun scan_labels ::
  "(string \<rightharpoonup> string) \<Rightarrow> string list \<Rightarrow> string option \<times> (string \<rightharpoonup> string)" where
  "scan_labels m [] = (None, m)"
| "scan_labels m (text # rest) =
     (let pair = Split text (CHR ''='') in
      if length pair \<le> 1 then (Some ''runtime error: index out of range'', m)
      else
        (let pair1 = ReplaceAll_empty (pair ! 1) (CHR 0x22)
         in scan_labels (m(pair ! 0 \<mapsto> pair1)) rest))"

definition getServiceLabels :: "World \<Rightarrow> (string \<rightharpoonup> string) outcome \<times> World" where
  "getServiceLabels s =
     (case podLabels s of
        Some m \<Rightarrow> (Ok m, s)
      | None \<Rightarrow>
          (let filename =
                 (if IsDevelopment (environment s) then ''/tmp/podinfo/labels''
                  else ''/etc/podinfo/labels'')
           in case files s filename of
                OpenError err \<Rightarrow>
                  (let m = [''error'' \<mapsto> ''ERROR: Error opening file '' @ filename @ '': '' @ err]
                   in (Ok m, s\<lparr>podLabels := Some m\<rparr>))
              | Scanned lines scanErr \<Rightarrow>
                  (case scan_labels Map.empty lines of
                     (Some msg, m) \<Rightarrow> (Panic msg, s\<lparr>podLabels := Some m\<rparr>)
                   | (None, m) \<Rightarrow>
                       (let m1 =
                              (case scanErr of
                                 None \<Rightarrow> m
                               | Some err \<Rightarrow> m(''error'' \<mapsto> ''ERROR: Error reading file: '' @ err))
                        in (Ok m1, s\<lparr>podLabels := Some m1\<rparr>)))))"

definition doFiltering :: bool where
  "doFiltering = False"

definition filterEnvVariables :: "string list" where
  "filterEnvVariables =
     [''DEVELOPMENT'', ''ENVIRONMENT'', ''POD_NAME'', ''POD_NAMESPACE'', ''POD_UID'', ''POD_IP'',
      ''POD_SERVICE_ACCOUNT'', ''NODE_NAME'', ''HOST_IP'']"

fun scan_environ ::
  "(string \<rightharpoonup> string) \<Rightarrow> string list \<Rightarrow> string option \<times> (string \<rightharpoonup> string)" where
  "scan_environ m [] = (None, m)"
| "scan_environ m (e # rest) =
     (let pair = Split e (CHR ''='');
          found = (pair ! 0 \<in> set filterEnvVariables)
      in if \<not> doFiltering \<or> found then
           (if length pair \<le> 1 then (Some ''runtime error: index out of range'', m)
            else scan_environ (m(pair ! 0 \<mapsto> pair ! 1)) rest)
         else scan_environ m rest)"

definition getEnvironmentVariables :: "World \<Rightarrow> (string \<rightharpoonup> string) outcome \<times> World" where
  "getEnvironmentVariables s =
     (case environmentVariables s of
        Some m \<Rightarrow> (Ok m, s)
      | None \<Rightarrow>
          (case scan_environ Map.empty (Environ (environment s)) of
             (Some msg, m) \<Rightarrow> (Panic msg, s\<lparr>environmentVariables := Some m\<rparr>)
           | (None, m) \<Rightarrow> (Ok m, s\<lparr>environmentVariables := Some m\<rparr>)))"

text \<open>The map literal of \<open>getServiceInfo\<close>; its calls run from left to right.\<close>

definition getServiceInfo :: "service \<Rightarrow> World \<Rightarrow> json outcome \<times> World" where
  "getServiceInfo svc s =
     (let currentTimestamp = now s in
      case getEnvironmentVariables s of
        (Panic msg, s1) \<Rightarrow> (Panic msg, s1)
      | (Ok env, s1) \<Rightarrow>
          (case getServiceLabels s1 of
             (Panic msg, s2) \<Rightarrow> (Panic msg, s2)
           | (Ok labels, s2) \<Rightarrow>
               (Ok (JObject
                  [''name'' \<mapsto> JString (name svc),
                   ''currentTimestamp'' \<mapsto> JTime currentTimestamp,
                   ''environment'' \<mapsto> json_of_map env,
                   ''labels'' \<mapsto> json_of_map labels]), s2)))"

definition getRequestInfo :: "Request \<Rightarrow> json" where
  "getRequestInfo r =
     JObject
       [''headers'' \<mapsto> json_of_values (Header r),
        ''method'' \<mapsto> JString (Method r),
        ''params'' \<mapsto> json_of_values (Query r),
        ''remoteAddr'' \<mapsto> JString (RemoteAddr r),
        ''userAgent'' \<mapsto> JString (Header_Get (Header r) ''User-Agent''),
        ''url'' \<mapsto> JString (URL r),
        ''host'' \<mapsto> JString (Host r),
        ''referrer'' \<mapsto> JString (Header_Get (Header r) ''Referer''),
        ''protocol'' \<mapsto> JString (Proto r)]"

text \<open>
  \<open>getJSONResponse\<close> returns the map \<open>called\<close>; the outbound call takes its time.
\<close>

definition getJSONResponse ::
  "lib \<Rightarrow> Request \<Rightarrow> World \<Rightarrow> (string \<rightharpoonup> json) \<times> World" where
  "getJSONResponse l r s =
     (case Query r ''url'' of
        None \<Rightarrow> ([''error'' \<mapsto> JString ''ERROR: Invalid url param provided for url to call''], s)
      | Some urlParams \<Rightarrow>
          if length urlParams \<noteq> 1 \<or> length (urlParams ! 0) < 1 then
            ([''error'' \<mapsto> JString ''ERROR: Invalid url param provided for url to call''], s)
          else
            (let called = [''url'' \<mapsto> JString (urlParams ! 0)];
                 (resp, took) = Get l (urlParams ! 0);
                 s1 = s\<lparr>now := now s + took\<rparr>
             in case resp of
                  GetFailed err \<Rightarrow>
                    (called(''error'' \<mapsto>
                       JString (''ERROR: Error calling url '' @ urlParams ! 0 @ '': '' @ err)), s1)
                | ReadFailed err \<Rightarrow>
                    (called(''error'' \<mapsto>
                       JString (''ERROR: Error reading response body: '' @ err)), s1)
                | GotBody body \<Rightarrow>
                    (case Unmarshal l body of
                       Inl err \<Rightarrow>
                         (called(''error'' \<mapsto>
                            JString (''ERROR: Error json decoding response body: '' @ err),
                            ''response_raw'' \<mapsto> JString body), s1)
                     | Inr target \<Rightarrow> (called(''response'' \<mapsto> target), s1))))"

text \<open>
  The time the outbound call of a request takes in \<open>getJSONResponse\<close>: there is
  no call when the parameter is missing or malformed.
\<close>

definition call_time :: "lib \<Rightarrow> Request \<Rightarrow> nat" where
  "call_time l r =
     (case Query r ''url'' of
        None \<Rightarrow> 0
      | Some urlParams \<Rightarrow>
          if length urlParams \<noteq> 1 \<or> length (urlParams ! 0) < 1 then 0
          else snd (Get l (urlParams ! 0)))"

definition indexHandler :: "lib \<Rightarrow> service \<Rightarrow> Handler" where
  "indexHandler l svc = (\<lambda>w r s.
     let w1 = SetHeader w ''Content-Type'' ''application/json'';
         w2 = WriteHeader w1 200
     in case getServiceInfo svc s of
          (Panic msg, s1) \<Rightarrow> Panicked msg w2 s1
        | (Ok info, s1) \<Rightarrow>
            (let response = [''service'' \<mapsto> info, ''request'' \<mapsto> getRequestInfo r]
             in Returned (fst (Write w2 (Encode l (JObject response)))) s1))"

definition callHandler :: "lib \<Rightarrow> service \<Rightarrow> Handler" where
  "callHandler l svc = (\<lambda>w r s.
     let w1 = SetHeader w ''Content-Type'' ''application/json'';
         w2 = WriteHeader w1 200
     in case getServiceInfo svc s of
          (Panic msg, s1) \<Rightarrow> Panicked msg w2 s1
        | (Ok info, s1) \<Rightarrow>
            (let (called, s2) = getJSONResponse l r s1;
                 response = [''service'' \<mapsto> info, ''request'' \<mapsto> getRequestInfo r,
                             ''called'' \<mapsto> JObject called]
             in Returned (fst (Write w2 (Encode l (JObject response)))) s2))"

text \<open>
  The router's reply to a path it has no route for is the library's: status 404 and a
  short text.
\<close>

definition NotFound :: Handler where
  "NotFound = (\<lambda>w r s.
     let w1 = SetHeader w ''Content-Type'' ''text/plain; charset=utf-8'';
         w2 = SetHeader w1 ''X-Content-Type-Options'' ''nosniff'';
         w3 = WriteHeader w2 404
     in Returned (fst (Write w3 (''404 page not found'' @ [CHR 0x0A]))) s)"

definition getRouter :: "lib \<Rightarrow> Handler" where
  "getRouter l = (\<lambda>w r s.
     let healthServerHandlers = healthCheck;
         mainServerHandlers = newService ''Inspector''
     in if Path r = ''/_ah/health/'' then
          adapt healthServerHandlers [addRequestTimeout, logHTTPRequest] w r s
        else if Path r = ''/_ah/ready/'' then
          adapt healthServerHandlers [addRequestTimeout, logHTTPRequest] w r s
        else if Path r = ''/call/'' then
          adapt (callHandler l mainServerHandlers) [addRequestTimeout, logHTTPRequest] w r s
        else if Path r = ''/'' then
          adapt (indexHandler l mainServerHandlers) [addRequestTimeout, logHTTPRequest] w r s
        else NotFound w r s)"

text \<open>
  The handler of the primary server: the router inside the library's tracing handler
  (which hands request and writer on) inside \<open>fixTracingHeader\<close>; and the handler
  of the liveness server.
\<close>

definition ochttp_Handler :: "Handler \<Rightarrow> Handler" where
  "ochttp_Handler h = h"

definition tracingWrapper :: "Handler \<Rightarrow> Handler" where
  "tracingWrapper handler = fixTracingHeader (ochttp_Handler handler)"

definition primaryHandler :: "lib \<Rightarrow> Handler" where
  "primaryHandler l = tracingWrapper (getRouter l)"

definition livenessHandler :: Handler where
  "livenessHandler = (\<lambda>w r s.
     if Path r = ''/_ah/health/'' then healthCheck w r s else NotFound w r s)"

text \<open>A new connection: nothing written yet.\<close>

definition fresh :: "nat \<Rightarrow> ResponseWriter" where
  "fresh n = Response \<lparr>wroteHeader = False, res_status = 0, res_header = Map.empty, res_body = [], room = n\<rparr>"

text \<open>
  What the client gets for a request.  The library sets the write deadline of the
  connection, the server's \<open>WriteTimeout\<close> from now, when it has read the request;
  a write to the connection after the deadline fails and sends nothing.  The handlers
  of this program write their body as their last step, so the response goes out when
  the handler is about to return: whole when the deadline has not passed, not at all
  when it has.  When the handler panics the library recovers, logs the panic and
  closes the connection without flushing: a status that was fixed with nothing written
  after it is never sent, and of a body that was being written the client has at most
  a part.  Times are in nanoseconds.
\<close>

datatype reply = Reply int string | Broken | NoReply

definition primary_WriteTimeout :: nat where
  "primary_WriteTimeout = 10 * 1000000000"

definition liveness_WriteTimeout :: nat where
  "liveness_WriteTimeout = 5 * 1000000000"

definition serve :: "nat \<Rightarrow> Handler \<Rightarrow> nat \<Rightarrow> Request \<Rightarrow> World \<Rightarrow> reply \<times> World" where
  "serve writeTimeout h n r s =
     (case h (fresh n) r s of
        Panicked msg w s1 \<Rightarrow>
          (if res_body (connection w) = [] then NoReply else Broken, s1)
      | Returned w s1 \<Rightarrow>
          (if writeTimeout < now s1 - now s then NoReply
           else Reply (sent_status (connection w)) (res_body (connection w)), s1))"

definition primaryServer :: "lib \<Rightarrow> nat \<Rightarrow> Request \<Rightarrow> World \<Rightarrow> reply \<times> World" where
  "primaryServer l = serve primary_WriteTimeout (primaryHandler l)"

definition livenessServer :: "nat \<Rightarrow> Request \<Rightarrow> World \<Rightarrow> reply \<times> World" where
  "livenessServer = serve liveness_WriteTimeout livenessHandler"


section \<open>Start and graceful shutdown\<close>

text \<open>
  \<open>main\<close> runs three goroutines once both servers are set up: the one that waits
  for the signal and shuts the primary server down, the main goroutine (inside the
  primary server's \<open>ListenAndServe\<close>, then waiting for \<open>allConsClosed\<close>, then
  running its deferred calls), and the one inside the liveness server's
  \<open>ListenAndServe\<close>.  Each has a program counter; a step of the process is a step of
  one of them, chosen by the scheduler and the outside world.  What the process does is
  recorded as a list of events; durations are in seconds.  The process ends when
  \<open>main\<close> returns (status 0), through \<open>logger.Fatalf\<close> (status 1), or killed
  by a signal that nothing catches any more.  The model starts where the coordinator
  has called \<open>signal.Notify\<close> and waits on its channel.
\<close>

datatype server = Primary | Liveness

datatype level = Debug | Info | Error | Fatal

datatype event =
    SignalReceived
  | Logged level string
  | Slept nat
  | ShutdownCalled server nat
  | ShutdownReturned server "string option"
  | ChannelClosed
  | ListenFailed server string
  | Exited nat
  | Killed

datatype ending = Status nat | BySignal

datatype coordinator_pc =
    C_WaitSignal | C_Signalled | C_Sleep | C_Announce | C_Shutdown | C_InShutdown
  | C_Close | C_Deferred | C_Done

datatype main_pc =
    M_Listen | M_WaitClosed | M_Clean | M_Deferred | M_Shutdown | M_InShutdown
  | M_Sync | M_Returned

datatype liveness_pc = L_Listen | L_Done

record process =
  cpc :: coordinator_pc
  mpc :: main_pc
  lpc :: liveness_pc
  primary_closing :: bool
  liveness_closing :: bool
  allConsClosed :: bool
  trace :: "event list"
  exit_code :: "ending option"

definition started :: process where
  "started =
     \<lparr>cpc = C_WaitSignal, mpc = M_Listen, lpc = L_Listen, primary_closing = False,
      liveness_closing = False, allConsClosed = False, trace = [], exit_code = None\<rparr>"

definition emit :: "event list \<Rightarrow> process \<Rightarrow> process" where
  "emit es p = p\<lparr>trace := trace p @ es\<rparr>"

text \<open>
  The goroutine started in \<open>main\<close> for the signal.  \<open>res\<close> is what
  \<open>srv.Shutdown\<close> returns (\<open>None\<close> for \<open>nil\<close>), used at the step where it
  returns.  Its deferred calls, \<open>cancel\<close> and \<open>signal.Stop(sigint)\<close>, run after
  the channel is closed: that is the step from \<open>C_Deferred\<close> to \<open>C_Done\<close>.
\<close>

definition coordinator_step :: "environment \<Rightarrow> string option \<Rightarrow> process \<Rightarrow> process" where
  "coordinator_step e res p =
     (case cpc p of
        C_WaitSignal \<Rightarrow> p
      | C_Signalled \<Rightarrow>
          emit [Logged Debug ''received shutdown signal'']
            (p\<lparr>cpc := (if \<not> IsDevelopment e then C_Sleep else C_Announce)\<rparr>)
      | C_Sleep \<Rightarrow> emit [Slept 10] (p\<lparr>cpc := C_Announce\<rparr>)
      | C_Announce \<Rightarrow> emit [Logged Debug ''server shutting down...''] (p\<lparr>cpc := C_Shutdown\<rparr>)
      | C_Shutdown \<Rightarrow>
          emit [ShutdownCalled Primary 20] (p\<lparr>cpc := C_InShutdown, primary_closing := True\<rparr>)
      | C_InShutdown \<Rightarrow>
          emit (ShutdownReturned Primary res #
                (case res of
                   None \<Rightarrow> []
                 | Some err \<Rightarrow> [Logged Error (''failed to shut down gracefully: '' @ err)]))
            (p\<lparr>cpc := C_Close\<rparr>)
      | C_Close \<Rightarrow> emit [ChannelClosed] (p\<lparr>cpc := C_Deferred, allConsClosed := True\<rparr>)
      | C_Deferred \<Rightarrow> p\<lparr>cpc := C_Done\<rparr>
      | C_Done \<Rightarrow> p)"

text \<open>
  The main goroutine from \<open>srv.ListenAndServe()\<close> on; \<open>res\<close> is what the
  liveness server's \<open>Shutdown\<close> returns.  The deferred calls run last in, first
  out: \<open>shutdownLivenessServer\<close>, then \<open>logger.Sync\<close>.
\<close>

definition main_step :: "string option \<Rightarrow> process \<Rightarrow> process" where
  "main_step res p =
     (case mpc p of
        M_Listen \<Rightarrow> (if primary_closing p then p\<lparr>mpc := M_WaitClosed\<rparr> else p)
      | M_WaitClosed \<Rightarrow> (if allConsClosed p then p\<lparr>mpc := M_Clean\<rparr> else p)
      | M_Clean \<Rightarrow> emit [Logged Info ''server shut down cleanly''] (p\<lparr>mpc := M_Deferred\<rparr>)
      | M_Deferred \<Rightarrow>
          emit [Logged Debug ''liveness server shutting down...''] (p\<lparr>mpc := M_Shutdown\<rparr>)
      | M_Shutdown \<Rightarrow>
          emit [ShutdownCalled Liveness 5] (p\<lparr>mpc := M_InShutdown, liveness_closing := True\<rparr>)
      | M_InShutdown \<Rightarrow>
          emit [ShutdownReturned Liveness res,
                (case res of
                   None \<Rightarrow> Logged Debug ''liveness server shut down cleanly''
                 | Some err \<Rightarrow> Logged Error (''failed to gracefully shutdown: '' @ err))]
            (p\<lparr>mpc := M_Sync\<rparr>)
      | M_Sync \<Rightarrow> emit [Exited 0] (p\<lparr>mpc := M_Returned, exit_code := Some (Status 0)\<rparr>)
      | M_Returned \<Rightarrow> p)"

text \<open>
  A \<open>ListenAndServe\<close> that returns anything but \<open>ErrServerClosed\<close> ends the
  process through \<open>logger.Fatalf\<close>; once \<open>Shutdown\<close> has been called on a
  server, its \<open>ListenAndServe\<close> returns \<open>ErrServerClosed\<close>.
\<close>

definition listen_fails :: "server \<Rightarrow> string \<Rightarrow> process \<Rightarrow> process" where
  "listen_fails srv err p =
     (case srv of
        Primary \<Rightarrow>
          if mpc p = M_Listen \<and> \<not> primary_closing p then
            emit [ListenFailed Primary err, Logged Fatal (''failed to start server: '' @ err),
                  Exited 1] (p\<lparr>exit_code := Some (Status 1)\<rparr>)
          else p
      | Liveness \<Rightarrow>
          if lpc p = L_Listen \<and> \<not> liveness_closing p then
            emit [ListenFailed Liveness err,
                  Logged Fatal (''failed to start liveness server: '' @ err), Exited 1]
              (p\<lparr>exit_code := Some (Status 1)\<rparr>)
          else p)"

definition liveness_step :: "process \<Rightarrow> process" where
  "liveness_step p =
     (if lpc p = L_Listen \<and> liveness_closing p then p\<lparr>lpc := L_Done\<rparr> else p)"

text \<open>
  What can happen next: an interrupt or termination signal arrives, one of the
  goroutines takes its step, or a listener fails.  The first signal is the one the
  coordinator waits for.  A later one is left in the channel, which nobody reads,
  while \<open>signal.Notify\<close> is in force; once the coordinator's deferred
  \<open>signal.Stop\<close> has run, the signal has its default effect again and kills the
  process.  Nothing happens once the process has ended.
\<close>

datatype choice =
    Signal
  | Coordinator "string option"
  | Main "string option"
  | LivenessListener
  | ListenFails server string

definition step :: "environment \<Rightarrow> process \<Rightarrow> choice \<Rightarrow> process" where
  "step e p c =
     (if exit_code p \<noteq> None then p
      else case c of
        Signal \<Rightarrow>
          (if cpc p = C_WaitSignal then emit [SignalReceived] (p\<lparr>cpc := C_Signalled\<rparr>)
           else if cpc p = C_Done then emit [Killed] (p\<lparr>exit_code := Some BySignal\<rparr>)
           else p)
      | Coordinator res \<Rightarrow> coordinator_step e res p
      | Main res \<Rightarrow> main_step res p
      | LivenessListener \<Rightarrow> liveness_step p
      | ListenFails srv err \<Rightarrow> listen_fails srv err p)"

definition run :: "environment \<Rightarrow> choice list \<Rightarrow> process" where
  "run e cs = foldl (step e) started cs"

text \<open>
  Order in a list of events: \<open>before A B es\<close> holds when no event satisfying \<open>B\<close>
  comes before the first event satisfying \<open>A\<close>, so that every \<open>B\<close> in \<open>es\<close>
  has an \<open>A\<close> earlier in \<open>es\<close>.
\<close>

fun before :: "('a \<Rightarrow> bool) \<Rightarrow> ('a \<Rightarrow> bool) \<Rightarrow> 'a list \<Rightarrow> bool" where
  "before A B [] = True"
| "before A B (x # xs) = (if A x then True else \<not> B x \<and> before A B xs)"

fun is_returned :: "server \<Rightarrow> event \<Rightarrow> bool" where
  "is_returned srv (ShutdownReturned srv1 res) = (srv1 = srv)"
| "is_returned srv ev = False"

fun is_called :: "server \<Rightarrow> event \<Rightarrow> bool" where
  "is_called srv (ShutdownCalled srv1 bound) = (srv1 = srv)"
| "is_called srv ev = False"



text \<open>
  The stages of the shutdown in a trace, in the order of the trace and without what
  the shutdown calls returned; and the stages of a complete shutdown.
\<close>

fun is_stage :: "event \<Rightarrow> bool" where
  "is_stage SignalReceived = True"
| "is_stage (Slept d) = True"
| "is_stage (ShutdownCalled srv bound) = True"
| "is_stage (ShutdownReturned srv res) = True"
| "is_stage ChannelClosed = True"
| "is_stage (Exited c) = (c = 0)"
| "is_stage (Logged lvl msg) = False"
| "is_stage (ListenFailed srv err) = False"
| "is_stage Killed = False"

fun no_result :: "event \<Rightarrow> event" where
  "no_result (ShutdownReturned srv res) = ShutdownReturned srv None"
| "no_result ev = ev"

definition outline :: "event list \<Rightarrow> event list" where
  "outline t = map no_result (filter is_stage t)"

definition delay :: "environment \<Rightarrow> event list" where
  "delay e = (if IsDevelopment e then [] else [Slept 10])"


text \<open>
  What the proofs below keep track of in every state the process reaches: how the
  flags follow from the program counters, what the trace holds at each program
  counter, and the order of the stages in the trace.
\<close>

definition consistent :: "environment \<Rightarrow> process \<Rightarrow> bool" where
  "consistent e p =
     ((primary_closing p = (cpc p \<in> {C_InShutdown, C_Close, C_Deferred, C_Done}))
    \<and> (allConsClosed p = (cpc p \<in> {C_Deferred, C_Done}))
    \<and> (liveness_closing p = (mpc p \<in> {M_InShutdown, M_Sync, M_Returned}))
    \<and> (mpc p \<notin> {M_Listen, M_WaitClosed} \<longrightarrow> cpc p \<in> {C_Deferred, C_Done})
    \<and> (mpc p = M_WaitClosed \<longrightarrow> primary_closing p)
    \<and> (cpc p = C_Sleep \<longrightarrow> \<not> IsDevelopment e)
    \<and> ((exit_code p = Some (Status 0)) = (mpc p = M_Returned)))"

fun is_failure :: "event \<Rightarrow> bool" where
  "is_failure (ListenFailed srv err) = True"
| "is_failure ev = False"

definition recorded :: "environment \<Rightarrow> process \<Rightarrow> bool" where
  "recorded e p =
     ((cpc p \<noteq> C_WaitSignal \<longrightarrow> SignalReceived \<in> set (trace p))
    \<and> (\<not> IsDevelopment e
         \<and> cpc p \<in> {C_Announce, C_Shutdown, C_InShutdown, C_Close, C_Deferred, C_Done}
         \<longrightarrow> Slept 10 \<in> set (trace p))
    \<and> (primary_closing p \<longrightarrow> (\<exists>x \<in> set (trace p). is_called Primary x))
    \<and> (cpc p \<in> {C_Close, C_Deferred, C_Done} \<longrightarrow>
         (\<exists>x \<in> set (trace p). is_returned Primary x))
    \<and> (cpc p \<in> {C_Deferred, C_Done} \<longrightarrow> ChannelClosed \<in> set (trace p))
    \<and> (liveness_closing p \<longrightarrow> (\<exists>x \<in> set (trace p). is_called Liveness x))
    \<and> (mpc p \<in> {M_Sync, M_Returned} \<longrightarrow> (\<exists>x \<in> set (trace p). is_returned Liveness x))
    \<and> length (filter (is_called Primary) (trace p)) = (if primary_closing p then 1 else 0)
    \<and> length (filter (is_called Liveness) (trace p)) = (if liveness_closing p then 1 else 0)
    \<and> (\<forall>x \<in> set (trace p). is_called Primary x \<longrightarrow> x = ShutdownCalled Primary 20)
    \<and> (\<forall>x \<in> set (trace p). is_called Liveness x \<longrightarrow> x = ShutdownCalled Liveness 5)
    \<and> (\<forall>d. Slept d \<in> set (trace p) \<longrightarrow> d = 10 \<and> \<not> IsDevelopment e)
    \<and> (\<forall>c. Exited c \<in> set (trace p) \<longrightarrow> exit_code p = Some (Status c))
    \<and> (Killed \<in> set (trace p) \<longrightarrow> exit_code p = Some BySignal)
    \<and> (exit_code p = None \<or> exit_code p = Some (Status 0) \<or> exit_code p = Some (Status 1)
       \<or> exit_code p = Some BySignal)
    \<and> (exit_code p = Some (Status 1) \<longrightarrow> (\<exists>x \<in> set (trace p). is_failure x))
    \<and> (exit_code p = Some BySignal \<longrightarrow> cpc p = C_Done))"


text \<open>The stages each goroutine has recorded when it stands at a program counter.\<close>

fun coordinator_stages :: "environment \<Rightarrow> coordinator_pc \<Rightarrow> event list" where
  "coordinator_stages e C_WaitSignal = []"
| "coordinator_stages e C_Signalled = [SignalReceived]"
| "coordinator_stages e C_Sleep = [SignalReceived]"
| "coordinator_stages e C_Announce = [SignalReceived] @ delay e"
| "coordinator_stages e C_Shutdown = [SignalReceived] @ delay e"
| "coordinator_stages e C_InShutdown = [SignalReceived] @ delay e @ [ShutdownCalled Primary 20]"
| "coordinator_stages e C_Close =
     [SignalReceived] @ delay e @ [ShutdownCalled Primary 20, ShutdownReturned Primary None]"
| "coordinator_stages e C_Deferred =
     [SignalReceived] @ delay e @
     [ShutdownCalled Primary 20, ShutdownReturned Primary None, ChannelClosed]"
| "coordinator_stages e C_Done =
     [SignalReceived] @ delay e @
     [ShutdownCalled Primary 20, ShutdownReturned Primary None, ChannelClosed]"

fun main_stages :: "main_pc \<Rightarrow> event list" where
  "main_stages M_Listen = []"
| "main_stages M_WaitClosed = []"
| "main_stages M_Clean = []"
| "main_stages M_Deferred = []"
| "main_stages M_Shutdown = []"
| "main_stages M_InShutdown = [ShutdownCalled Liveness 5]"
| "main_stages M_Sync = [ShutdownCalled Liveness 5, ShutdownReturned Liveness None]"
| "main_stages M_Returned =
     [ShutdownCalled Liveness 5, ShutdownReturned Liveness None, Exited 0]"

text \<open>
  In a list of events, every shutdown call that returned an error is directly followed
  by the log entry, at level error, that ends with the error.
\<close>

fun logs_error :: "string \<Rightarrow> event list \<Rightarrow> bool" where
  "logs_error err (Logged lvl msg # rest) =
     (lvl = Error \<and> drop (length msg - length err) msg = err)"
| "logs_error err rest = False"

fun errors_logged :: "event list \<Rightarrow> bool" where
  "errors_logged [] = True"
| "errors_logged (ev # rest) =
     ((case ev of
         ShutdownReturned srv (Some err) \<Rightarrow> logs_error err rest
       | _ \<Rightarrow> True)
      \<and> errors_logged rest)"

definition pending :: "event list \<Rightarrow> bool" where
  "pending t =
     (t \<noteq> [] \<and>
      (case last t of ShutdownReturned srv (Some err) \<Rightarrow> True | _ \<Rightarrow> False))"

text \<open>
  A schedule that lets the coordinator and then the main goroutine run to their ends;
  \<open>r1\<close> and \<open>r2\<close> are what the two shutdown calls return.  And a schedule with
  every result of a shutdown call replaced by \<open>nil\<close>.
\<close>

definition drain :: "string option \<Rightarrow> string option \<Rightarrow> choice list" where
  "drain r1 r2 = replicate 7 (Coordinator r1) @ replicate 7 (Main r2)"

fun without_error :: "choice \<Rightarrow> choice" where
  "without_error (Coordinator res) = Coordinator None"
| "without_error (Main res) = Main None"
| "without_error c = c"

text \<open>Where the process stands, without what it has recorded.\<close>

definition control ::
  "process \<Rightarrow> coordinator_pc \<times> main_pc \<times> liveness_pc \<times> bool \<times> bool \<times> bool \<times> ending option"
  where
  "control p =
     (cpc p, mpc p, lpc p, primary_closing p, liveness_closing p, allConsClosed p, exit_code p)"

text \<open>The steps a goroutine has left before its end.\<close>

fun coordinator_left :: "coordinator_pc \<Rightarrow> nat" where
  "coordinator_left C_WaitSignal = 8"
| "coordinator_left C_Signalled = 7"
| "coordinator_left C_Sleep = 6"
| "coordinator_left C_Announce = 5"
| "coordinator_left C_Shutdown = 4"
| "coordinator_left C_InShutdown = 3"
| "coordinator_left C_Close = 2"
| "coordinator_left C_Deferred = 1"
| "coordinator_left C_Done = 0"

fun main_left :: "main_pc \<Rightarrow> nat" where
  "main_left M_Listen = 7"
| "main_left M_WaitClosed = 6"
| "main_left M_Clean = 5"
| "main_left M_Deferred = 4"
| "main_left M_Shutdown = 3"
| "main_left M_InShutdown = 2"
| "main_left M_Sync = 1"
| "main_left M_Returned = 0"

text \<open>An example request and an example world, for the concrete runs below.\<close>

definition example_request :: Request where
  "example_request =
     \<lparr>Method = ''GET'', URL = ''/'', Path = ''/'', Query = Map.empty, Proto = ''HTTP/1.1'',
      Header = Map.empty, Host = ''localhost:8282'', RemoteAddr = ''127.0.0.1:60217'',
      deadline = None\<rparr>"

definition example_world :: World where
  "example_world =
     \<lparr>environment = [], files = (\<lambda>path. OpenError ''no such file or directory''),
      podLabels = None, environmentVariables = None, now = 0, logged = []\<rparr>"

definition traced :: "string \<Rightarrow> Request" where
  "traced v = example_request\<lparr>Header := [''X-Cloud-Trace-Context'' \<mapsto> [v]]\<rparr>"

text \<open>
  The file \<open>getServiceLabels\<close> reads, libraries whose outbound call is refused, a
  world whose label file has the given lines, and a request to \<open>/call/\<close>.
\<close>

definition labels_path :: "World \<Rightarrow> string" where
  "labels_path s =
     (if IsDevelopment (environment s) then ''/tmp/podinfo/labels'' else ''/etc/podinfo/labels'')"

definition example_lib :: lib where
  "example_lib =
     \<lparr>Get = (\<lambda>url. (GetFailed ''connection refused'', 5000000)),
      Unmarshal = (\<lambda>b. Inl ''unexpected end of JSON input''),
      Encode = (\<lambda>j. ''{}'')\<rparr>"

definition labelled_world :: "string list \<Rightarrow> World" where
  "labelled_world lines = example_world\<lparr>files := (\<lambda>path. Scanned lines None)\<rparr>"

definition call_request :: Request where
  "call_request =
     example_request\<lparr>URL := ''/call/?url=http%3A%2F%2Fother%2F'', Path := ''/call/'',
       Query := [''url'' \<mapsto> [''http://other/'']]\<rparr>"

text \<open>
  A library whose outbound call breaks off after 11 seconds, while the body is read.
\<close>

definition slow_lib :: lib where
  "slow_lib = example_lib\<lparr>Get := (\<lambda>url. (ReadFailed ''unexpected EOF'', 11 * 1000000000))\<rparr>"

section \<open>Parsing numbers\<close>

lemma of_char_eq_48: "(of_char c = (48::nat)) = (c = CHR ''0'')"
proof -
  have "(of_char (CHR ''0'') :: nat) = 48" by simp
  then show ?thesis by (metis of_char_eq_iff)
qed

lemma of_char_eq_49: "(of_char c = (49::nat)) = (c = CHR ''1'')"
proof -
  have "(of_char (CHR ''1'') :: nat) = 49" by simp
  then show ?thesis by (metis of_char_eq_iff)
qed

lemma digit_of_zero: "(digit_of c = Some 0) = (c = CHR ''0'')"
proof -
  have "(digit_of c = Some 0) = (of_char c = (48::nat))"
    by (auto simp: digit_of_def Let_def)
  then show ?thesis by (simp add: of_char_eq_48)
qed

lemma digit_of_one: "(digit_of c = Some (Suc 0)) = (c = CHR ''1'')"
proof -
  have "(digit_of c = Some (Suc 0)) = (of_char c = (49::nat))"
    by (auto simp: digit_of_def Let_def)
  then show ?thesis by (simp add: of_char_eq_49)
qed

lemma digit_of_less: "digit_of c = Some d \<Longrightarrow> d < 36"
  by (auto simp: digit_of_def Let_def split: if_splits)

lemma parse_digits_Cons:
  assumes "0 < base"
  shows "parse_digits base n (c # cs) =
     (case digit_of c of
        None \<Rightarrow> Inl ErrSyntax
      | Some d \<Rightarrow>
          if d \<ge> base then Inl ErrSyntax
          else if n * base + d > maxUint64 then Inl ErrRange
          else parse_digits base (n * base + d) cs)"
proof (cases "digit_of c")
  case None
  then show ?thesis by simp
next
  case (Some d)
  show ?thesis
  proof (cases "d \<ge> base")
    case True
    with Some show ?thesis by simp
  next
    case dlt: False
    show ?thesis
    proof (cases "n \<ge> maxUint64 div base + 1")
      case True
      then have "maxUint64 div base < n" by simp
      then have "maxUint64 < n * base"
        using assms by (simp add: div_less_iff_less_mult)
      with Some dlt True show ?thesis by simp
    next
      case False
      then have "n \<le> maxUint64 div base" by simp
      then have nb: "n * base \<le> maxUint64"
        using assms by (simp add: less_eq_div_iff_mult_less_eq)
      then have nb64: "n * base < 2 ^ 64" by (simp add: maxUint64_def)
      have d36: "d < 36" using Some by (rule digit_of_less)
      have m1: "(n * base) mod 2 ^ 64 = n * base" using nb64 by simp
      show ?thesis
      proof (cases "n * base + d < 2 ^ 64")
        case True
        then have "(n * base + d) mod 2 ^ 64 = n * base + d" by simp
        with Some dlt False m1 True show ?thesis
          by (simp add: Let_def maxUint64_def)
      next
        case over: False
        have "n * base + d < 2 ^ 64 + 2 ^ 64" using nb64 d36 by simp
        then have "(n * base + d) mod 2 ^ 64 = n * base + d - 2 ^ 64"
          using over by (simp add: mod_if)
        moreover have "n * base + d - 2 ^ 64 < n * base" using over d36 by simp
        ultimately show ?thesis using Some dlt False m1 over
          by (simp add: Let_def maxUint64_def)
      qed
    qed
  qed
qed


lemma parse_digits_10_Cons:
  "parse_digits 10 n (c # cs) =
     (case digit_of c of
        None \<Rightarrow> Inl ErrSyntax
      | Some d \<Rightarrow>
          if d \<ge> 10 then Inl ErrSyntax
          else if n * 10 + d > maxUint64 then Inl ErrRange
          else parse_digits 10 (n * 10 + d) cs)"
  by (rule parse_digits_Cons) simp

lemma parse_digits_10_mono:
  "parse_digits 10 n cs = Inr m \<Longrightarrow> n \<le> m"
proof (induction cs arbitrary: n)
  case Nil
  then show ?case by simp
next
  case (Cons c cs)
  from Cons.prems obtain d where d: "digit_of c = Some d"
    and r: "parse_digits 10 (n * 10 + d) cs = Inr m"
    by (auto simp only: parse_digits_10_Cons split: option.splits if_splits)
  from Cons.IH [OF r] show ?case by simp
qed

lemma parse_digits_10_grow:
  "parse_digits 10 n cs = Inr m \<Longrightarrow> cs \<noteq> [] \<Longrightarrow> 10 * n \<le> m"
proof (cases cs)
  case Nil
  assume "cs \<noteq> []"
  with Nil show ?thesis by simp
next
  case (Cons c cs')
  assume p: "parse_digits 10 n cs = Inr m"
  from p Cons obtain d where r: "parse_digits 10 (n * 10 + d) cs' = Inr m"
    by (auto simp only: parse_digits_10_Cons split: option.splits if_splits)
  from parse_digits_10_mono [OF r] show ?thesis by simp
qed


lemma zeros_one_Cons:
  "(c # cs = replicate k (CHR ''0'') @ ''1'') =
   (if k = 0 then c = CHR ''1'' \<and> cs = []
    else c = CHR ''0'' \<and> cs = replicate (k - 1) (CHR ''0'') @ ''1'')"
  by (cases k) auto

lemma zeros_one_ex_Cons:
  "(\<exists>k. c # cs = replicate k (CHR ''0'') @ ''1'') =
   (c = CHR ''1'' \<and> cs = [] \<or> c = CHR ''0'' \<and> (\<exists>k. cs = replicate k (CHR ''0'') @ ''1''))"
proof -
  have "(\<exists>k. c # cs = replicate k (CHR ''0'') @ ''1'') =
        ((c # cs = replicate 0 (CHR ''0'') @ ''1'') \<or> (\<exists>k. c # cs = replicate (Suc k) (CHR ''0'') @ ''1''))"
    by (metis not0_implies_Suc)
  then show ?thesis by (simp add: zeros_one_Cons del: replicate.simps)
qed


lemma parse_digits_10_first: "parse_digits 10 0 (c # cs) =
     (case digit_of c of
        None \<Rightarrow> Inl ErrSyntax
      | Some d \<Rightarrow> if d \<ge> 10 then Inl ErrSyntax else parse_digits 10 d cs)"
proof (cases "digit_of c")
  case None
  then show ?thesis by (simp only: parse_digits_10_Cons option.case)
next
  case (Some d)
  then have "d < 36" by (rule digit_of_less)
  then have "\<not> (0 * 10 + d > maxUint64)" by (simp add: maxUint64_def)
  with Some show ?thesis by (simp only: parse_digits_10_Cons option.case if_False) simp
qed

lemma parse_digits_10_from_one: "(parse_digits 10 (Suc 0) cs = Inr (Suc 0)) = (cs = [])"
proof
  assume "parse_digits 10 (Suc 0) cs = Inr (Suc 0)"
  then show "cs = []"
    using parse_digits_10_grow [of "Suc 0" cs "Suc 0"] by (cases "cs = []") simp_all
next
  assume "cs = []"
  then show "parse_digits 10 (Suc 0) cs = Inr (Suc 0)" by simp
qed


declare parse_digits.simps(2) [simp del]


lemma parse_digits_10_one:
  "(parse_digits 10 0 cs = Inr (Suc 0)) = (\<exists>k. cs = replicate k (CHR ''0'') @ ''1'')"
proof (induction cs)
  case Nil
  then show ?case by simp
next
  case (Cons c cs)
  show ?case
  proof (cases "digit_of c")
    case None
    then have "c \<noteq> CHR ''0''" "c \<noteq> CHR ''1''"
      using digit_of_zero [of c] digit_of_one [of c] by auto
    moreover have "parse_digits 10 0 (c # cs) = Inl ErrSyntax"
      using None by (simp only: parse_digits_10_first option.case)
    ultimately show ?thesis
      by (simp only: zeros_one_ex_Cons) blast
  next
    case (Some d)
    consider "d = 0" | "d = Suc 0" | "2 \<le> d \<and> d < 10" | "10 \<le> d" by arith
    then show ?thesis
    proof cases
      case 1
      then have c: "c = CHR ''0''" using Some digit_of_zero [of c] by simp
      have "parse_digits 10 0 (c # cs) = parse_digits 10 0 cs"
        using Some 1 by (simp only: parse_digits_10_first option.case) simp
      with c Cons.IH show ?thesis
        by (simp only: zeros_one_ex_Cons) blast
    next
      case 2
      then have c: "c = CHR ''1''" using Some digit_of_one [of c] by simp
      have "parse_digits 10 0 (c # cs) = parse_digits 10 (Suc 0) cs"
        using Some 2 by (simp only: parse_digits_10_first option.case) simp
      with c parse_digits_10_from_one [of cs] show ?thesis
        by (simp only: zeros_one_ex_Cons) blast
    next
      case 3
      then have "c \<noteq> CHR ''0''" "c \<noteq> CHR ''1''"
        using Some digit_of_zero [of c] digit_of_one [of c] by auto
      moreover have "parse_digits 10 0 (c # cs) = parse_digits 10 d cs"
        using Some 3 by (simp only: parse_digits_10_first option.case) simp
      moreover have "parse_digits 10 d cs \<noteq> Inr (Suc 0)"
        using parse_digits_10_mono [of d cs "Suc 0"] 3 by auto
      ultimately show ?thesis
        by (simp only: zeros_one_ex_Cons) blast
    next
      case 4
      then have "c \<noteq> CHR ''0''" "c \<noteq> CHR ''1''"
        using Some digit_of_zero [of c] digit_of_one [of c] by auto
      moreover have "parse_digits 10 0 (c # cs) = Inl ErrSyntax"
        using Some 4 by (simp only: parse_digits_10_first option.case) simp
      ultimately show ?thesis
        by (simp only: zeros_one_ex_Cons) blast
    qed
  qed
qed


lemma ParseUint_10_one:
  "(ParseUint s 10 = Inr (Suc 0)) = (\<exists>k. s = replicate k (CHR ''0'') @ ''1'')"
proof (cases "s = []")
  case True
  then show ?thesis by (simp add: ParseUint_def)
next
  case False
  then show ?thesis by (simp only: ParseUint_def if_False parse_digits_10_one)
qed

lemma Atoi_unsigned:
  assumes "c \<noteq> CHR ''+''" "c \<noteq> CHR ''-''"
  shows "(Atoi (c # cs) = Inr 1) = (ParseUint (c # cs) 10 = Inr (Suc 0))"
  using assms by (auto simp: Atoi_def Let_def split: sum.splits)

lemma Atoi_plus:
  "(Atoi (CHR ''+'' # cs) = Inr 1) = (ParseUint cs 10 = Inr (Suc 0))"
  by (auto simp: Atoi_def Let_def split: sum.splits)

lemma Atoi_minus:
  "Atoi (CHR ''-'' # cs) \<noteq> Inr 1"
  by (auto simp: Atoi_def Let_def split: sum.splits)

lemma Atoi_one:
  "(Atoi s = Inr 1) =
   (\<exists>k. s = replicate k (CHR ''0'') @ ''1'' \<or> s = CHR ''+'' # replicate k (CHR ''0'') @ ''1'')"
proof (cases s)
  case Nil
  then show ?thesis by (simp add: Atoi_def)
next
  case (Cons c cs)
  consider "c = CHR ''+''" | "c = CHR ''-''" | "c \<noteq> CHR ''+'' \<and> c \<noteq> CHR ''-''" by blast
  then show ?thesis
  proof cases
    case 1
    have "\<not> (\<exists>k. CHR ''+'' # cs = replicate k (CHR ''0'') @ ''1'')"
      by (simp only: zeros_one_ex_Cons) simp
    then show ?thesis
      unfolding Cons 1 Atoi_plus ParseUint_10_one by blast
  next
    case 2
    have "\<not> (\<exists>k. CHR ''-'' # cs = replicate k (CHR ''0'') @ ''1'')"
      by (simp only: zeros_one_ex_Cons) simp
    then show ?thesis
      unfolding Cons 2 using Atoi_minus [of cs] by auto
  next
    case 3
    then show ?thesis
      unfolding Cons using Atoi_unsigned [of c cs] ParseUint_10_one [of "c # cs"] by auto
  qed
qed


section \<open>Development mode is the value 1\<close>

lemma IsDevelopment_Atoi:
  "IsDevelopment e = (Atoi (Getenv e ''DEVELOPMENT'') = Inr 1)"
  by (cases "Getenv e ''DEVELOPMENT'' = []")
     (auto simp: IsDevelopment_def Let_def Atoi_def split: sum.splits)

text \<open>
  C7, as the code has it.  Development mode is on exactly when \<open>DEVELOPMENT\<close>
  reads as the integer 1: the digit 1 after any number of zeros, with or without a plus
  sign.  It is off for every other value: unset, empty, zero, not a number, and also
  every other integer.  The mode selects the console encoding of the log, and the
  coordinator skips the sleep before the shutdown exactly in this mode.
\<close>

theorem IsDevelopment_iff_one:
  "IsDevelopment e =
     (\<exists>k. Getenv e ''DEVELOPMENT'' = replicate k (CHR ''0'') @ ''1'' \<or>
          Getenv e ''DEVELOPMENT'' = CHR ''+'' # replicate k (CHR ''0'') @ ''1'')
   \<and> setupLogger_encoding e = (if IsDevelopment e then ''console'' else ''json'')
   \<and> cpc (coordinator_step e res (p\<lparr>cpc := C_Signalled\<rparr>)) =
       (if IsDevelopment e then C_Announce else C_Sleep)"
  by (simp add: IsDevelopment_Atoi Atoi_one setupLogger_encoding_def coordinator_step_def
      emit_def)

theorem IsDevelopment_iff_one_witness:
  "IsDevelopment [(''DEVELOPMENT'', ''+01'')] \<and> \<not> IsDevelopment [(''DEVELOPMENT'', ''10'')]"
proof -
  have a: "Getenv [(''DEVELOPMENT'', ''+01'')] ''DEVELOPMENT'' = CHR ''+'' # replicate 1 (CHR ''0'') @ ''1''"
    by (simp add: Getenv_def)
  have b: "\<not> (\<exists>k. Getenv [(''DEVELOPMENT'', ''10'')] ''DEVELOPMENT'' = replicate k (CHR ''0'') @ ''1'' \<or>
          Getenv [(''DEVELOPMENT'', ''10'')] ''DEVELOPMENT'' = CHR ''+'' # replicate k (CHR ''0'') @ ''1'')"
    by (simp add: Getenv_def zeros_one_Cons)
  from a have "IsDevelopment [(''DEVELOPMENT'', ''+01'')]"
    using IsDevelopment_iff_one [of "[(''DEVELOPMENT'', ''+01'')]"] by blast
  moreover from b have "\<not> IsDevelopment [(''DEVELOPMENT'', ''10'')]"
    using IsDevelopment_iff_one [of "[(''DEVELOPMENT'', ''10'')]"] by blast
  ultimately show ?thesis by simp
qed

text \<open>
  The claim as written fails: \<open>2\<close> denotes a nonzero integer, and the mode is off.
\<close>

theorem IsDevelopment_two_counterexample:
  "Atoi ''2'' = Inr 2 \<and> \<not> IsDevelopment [(''DEVELOPMENT'', ''2'')]"
  by (simp add: IsDevelopment_def Getenv_def Atoi_def ParseUint_def parse_digits.simps
      digit_of_def maxUint64_def)

section \<open>The trace header is normalised\<close>

lemma Index_ge: "- 1 \<le> Index s c"
  by (induction s) (auto simp: Let_def)

lemma Index_absent: "c \<notin> set s \<Longrightarrow> Index s c = - 1"
  by (induction s) (auto simp: Let_def)

lemma Index_first: "c \<notin> set t \<Longrightarrow> Index (t @ c # rest) c = int (length t)"
  by (induction t) (auto simp: Let_def)

lemma Header_Get_Set: "Header_Get (Header_Set h k v) k = v"
  by (simp add: Header_Get_def Header_Set_def)

lemma Header_Set_same: "h k = Some [v] \<Longrightarrow> Header_Set h k v = h"
  by (auto simp: Header_Set_def)

lemma fix_request_no_slash:
  assumes "CHR ''/'' \<notin> set (Header_Get (Header r) ''X-Cloud-Trace-Context'')"
  shows "fix_request r = r"
  using assms by (simp add: fix_request_def Let_def Index_absent)

lemma take_first: "take (nat (int (length t))) (t @ c # rest) = t"
  by simp

lemma drop_first: "drop (nat (int (length t) + 1)) (t @ c # rest) = rest"
  by (simp add: nat_add_distrib)

lemma fix_request_no_semicolon:
  assumes "Header_Get (Header r) ''X-Cloud-Trace-Context'' = t @ ''/'' @ rest"
    and "CHR ''/'' \<notin> set t" and "CHR '';'' \<notin> set rest"
  shows "fix_request r = r"
proof -
  have "Index (t @ CHR ''/'' # rest) (CHR ''/'') = int (length t)"
    using assms(2) by (rule Index_first)
  moreover have "Index rest (CHR '';'') = - 1"
    using assms(3) by (rule Index_absent)
  ultimately show ?thesis
    using assms(1)
    by (simp add: fix_request_def Let_def drop_first del: drop_append of_nat_add)
qed

lemma fix_request_split:
  assumes "Header_Get (Header r) ''X-Cloud-Trace-Context'' = t @ ''/'' @ sp @ '';'' @ fl"
    and "CHR ''/'' \<notin> set t" and "CHR '';'' \<notin> set sp"
  shows "fix_request r =
     r\<lparr>Header := Header_Set (Header r) ''X-Cloud-Trace-Context''
                   (t @ ''/'' @
                    (case ParseUint sp 10 of
                       Inr u \<Rightarrow> sp
                     | Inl err \<Rightarrow>
                         (case ParseUint sp 16 of
                            Inr n \<Rightarrow> FormatUint (n mod 2 ^ 32)
                          | Inl err1 \<Rightarrow> sp)) @ '';'' @ fl)\<rparr>"
proof -
  have a: "Index (t @ CHR ''/'' # sp @ CHR '';'' # fl) (CHR ''/'') = int (length t)"
    using assms(2) by (rule Index_first)
  have b: "Index (sp @ CHR '';'' # fl) (CHR '';'') = int (length sp)"
    using assms(3) by (rule Index_first)
  show ?thesis
    using assms(1) a b
    by (simp add: fix_request_def Let_def drop_first del: drop_append of_nat_add)
qed


lemma digit_of_semicolon: "digit_of (CHR '';'') = None"
  by (simp add: digit_of_def lower_def)

lemma parse_digits_all_digits:
  "parse_digits base n s = Inr m \<Longrightarrow> c \<in> set s \<Longrightarrow> digit_of c \<noteq> None"
proof (induction s arbitrary: n)
  case Nil
  then show ?case by simp
next
  case (Cons x xs)
  from Cons.prems(1) obtain d where d: "digit_of x = Some d"
    by (cases "digit_of x") (simp_all add: parse_digits.simps)
  show ?case
  proof (cases "c = x")
    case True
    with d show ?thesis by simp
  next
    case False
    with Cons.prems(2) have "c \<in> set xs" by simp
    moreover from Cons.prems(1) d obtain n1 where "parse_digits base n1 xs = Inr m"
      by (auto simp: parse_digits.simps Let_def split: if_splits)
    ultimately show ?thesis by (rule Cons.IH [rotated])
  qed
qed

lemma ParseUint_no_semicolon: "ParseUint s base = Inr m \<Longrightarrow> CHR '';'' \<notin> set s"
  using parse_digits_all_digits [of base 0 s m "CHR '';''"] digit_of_semicolon
  by (auto simp: ParseUint_def split: if_splits)

lemma parse_digits_append:
  "parse_digits base n (xs @ ys) =
     (case parse_digits base n xs of Inl e \<Rightarrow> Inl e | Inr m \<Rightarrow> parse_digits base m ys)"
  by (induction xs arbitrary: n) (simp_all add: parse_digits.simps Let_def split: option.splits)

lemma digit_of_digit_char: "d < 10 \<Longrightarrow> digit_of (digit_char d) = Some d"
proof -
  assume "d < 10"
  then have "d \<in> {0, 1, 2, 3, 4, 5, 6, 7, 8, 9}" by auto
  then show ?thesis by (auto simp add: digit_char_def digit_of_def lower_def)
qed

lemma parse_digits_10_last:
  assumes "d < 10" and "n * 10 + d \<le> maxUint64"
  shows "parse_digits 10 n [digit_char d] = Inr (n * 10 + d)"
  using assms by (simp add: parse_digits_10_Cons digit_of_digit_char)

declare FormatUint.simps [simp del]

lemma parse_digits_FormatUint:
  "n \<le> maxUint64 \<Longrightarrow> parse_digits 10 0 (FormatUint n) = Inr n"
proof (induction n rule: FormatUint.induct)
  case (1 n)
  show ?case
  proof (cases "n < 10")
    case True
    with "1.prems" show ?thesis
      using parse_digits_10_last [of n 0] by (subst FormatUint.simps) simp
  next
    case False
    have "n div 10 \<le> maxUint64" using "1.prems" by simp
    with False "1.IH" have ih: "parse_digits 10 0 (FormatUint (n div 10)) = Inr (n div 10)"
      by simp
    have "parse_digits 10 (n div 10) [digit_char (n mod 10)] = Inr (n div 10 * 10 + n mod 10)"
      using "1.prems" by (intro parse_digits_10_last) simp_all
    with ih False show ?thesis
      by (subst FormatUint.simps) (simp add: parse_digits_append)
  qed
qed

lemma FormatUint_not_empty: "FormatUint n \<noteq> []"
  by (subst FormatUint.simps) simp

lemma ParseUint_FormatUint: "n \<le> maxUint64 \<Longrightarrow> ParseUint (FormatUint n) 10 = Inr n"
  by (simp add: ParseUint_def FormatUint_not_empty parse_digits_FormatUint)

lemma mod32_le: "n mod 2 ^ 32 \<le> maxUint64"
proof -
  have "n mod 2 ^ 32 < (2 ^ 32 :: nat)" by simp
  then show ?thesis by (simp add: maxUint64_def)
qed


text \<open>
  C6.  For a header \<open>trace-id/span-id;flags\<close> (the trace id is what precedes the
  first slash) whose span id does not parse as an unsigned 64-bit integer in base 10
  and parses in base 16 to \<open>n\<close>, the handler inside is called with the header set
  to the same trace id and flags around the decimal digits of \<open>n mod 2^32\<close>: the new
  span reads back, in base 10, as that number.
\<close>

theorem hex_span_rewritten:
  assumes "Header_Get (Header r) ''X-Cloud-Trace-Context'' = trace_id @ ''/'' @ span @ '';'' @ flags"
    and "CHR ''/'' \<notin> set trace_id"
    and "ParseUint span 10 = Inl e"
    and "ParseUint span 16 = Inr n"
  shows "fixTracingHeader h w r s =
           h w (r\<lparr>Header := Header_Set (Header r) ''X-Cloud-Trace-Context''
                   (trace_id @ ''/'' @ FormatUint (n mod 2 ^ 32) @ '';'' @ flags)\<rparr>) s
         \<and> Header_Get (Header (fix_request r)) ''X-Cloud-Trace-Context'' =
           trace_id @ ''/'' @ FormatUint (n mod 2 ^ 32) @ '';'' @ flags
         \<and> ParseUint (FormatUint (n mod 2 ^ 32)) 10 = Inr (n mod 2 ^ 32)"
proof -
  have "CHR '';'' \<notin> set span" using assms(4) by (rule ParseUint_no_semicolon)
  with assms(1,2) have "fix_request r =
      r\<lparr>Header := Header_Set (Header r) ''X-Cloud-Trace-Context''
                   (trace_id @ ''/'' @ FormatUint (n mod 2 ^ 32) @ '';'' @ flags)\<rparr>"
    using assms(3,4) by (simp add: fix_request_split)
  moreover have "ParseUint (FormatUint (n mod 2 ^ 32)) 10 = Inr (n mod 2 ^ 32)"
    by (rule ParseUint_FormatUint [OF mod32_le])
  ultimately show ?thesis
    by (simp add: fixTracingHeader_def Header_Get_Set)
qed

theorem hex_span_rewritten_witness:
  "Header_Get (Header (fix_request (traced ''105445aa7843bc8bf206b12000100000/ff;o=1'')))
     ''X-Cloud-Trace-Context'' = ''105445aa7843bc8bf206b12000100000/255;o=1''
   \<and> Header_Get (Header (fix_request (traced ''t/1ffffffff;o=1''))) ''X-Cloud-Trace-Context'' =
     ''t/4294967295;o=1''"
proof -
  have a: "ParseUint ''ff'' 10 = Inl ErrSyntax" "ParseUint ''ff'' 16 = Inr 255"
    by (simp_all add: ParseUint_def parse_digits.simps digit_of_def lower_def maxUint64_def)
  have b: "ParseUint ''1ffffffff'' 10 = Inl ErrSyntax" "ParseUint ''1ffffffff'' 16 = Inr 8589934591"
    by (simp_all add: ParseUint_def parse_digits.simps digit_of_def lower_def maxUint64_def)
  have f: "FormatUint 255 = ''255''" "FormatUint 4294967295 = ''4294967295''"
    by (simp_all add: FormatUint.simps digit_char_def)
  have "Header_Get (Header (fix_request (traced ''105445aa7843bc8bf206b12000100000/ff;o=1'')))
     ''X-Cloud-Trace-Context'' = ''105445aa7843bc8bf206b12000100000'' @ ''/'' @ FormatUint (255 mod 2 ^ 32) @ '';'' @ ''o=1''"
    using hex_span_rewritten [of "traced ''105445aa7843bc8bf206b12000100000/ff;o=1''"
        "''105445aa7843bc8bf206b12000100000''" "''ff''" "''o=1''" ErrSyntax 255] a
    by (simp add: traced_def Header_Get_def)
  moreover have "Header_Get (Header (fix_request (traced ''t/1ffffffff;o=1''))) ''X-Cloud-Trace-Context'' =
     ''t'' @ ''/'' @ FormatUint (8589934591 mod 2 ^ 32) @ '';'' @ ''o=1''"
    using hex_span_rewritten [of "traced ''t/1ffffffff;o=1''" "''t''" "''1ffffffff''" "''o=1''"
        ErrSyntax 8589934591] b
    by (simp add: traced_def Header_Get_def)
  ultimately show ?thesis using f by simp
qed

text \<open>
  C5.  The header value passes unchanged when it has no slash, when it has no semicolon
  after the first slash, and when the span id (between the first slash and the next
  semicolon) parses in base 10 or parses in neither base; a request whose header holds
  just that one value is then forwarded as it came.  The header
  \<open>105445aa7843bc8bf206b12000100000/1;o=1\<close> is such a value.
\<close>

theorem decimal_or_malformed_unchanged:
  assumes "Header_Get (Header r) ''X-Cloud-Trace-Context'' = v"
  shows "(CHR ''/'' \<notin> set v \<longrightarrow> fix_request r = r)
       \<and> (\<forall>t rest. v = t @ ''/'' @ rest \<and> CHR ''/'' \<notin> set t \<and> CHR '';'' \<notin> set rest
            \<longrightarrow> fix_request r = r)
       \<and> (\<forall>t sp fl. v = t @ ''/'' @ sp @ '';'' @ fl \<and> CHR ''/'' \<notin> set t \<and> CHR '';'' \<notin> set sp
            \<and> (isl (ParseUint sp 10) \<longrightarrow> isl (ParseUint sp 16))
            \<longrightarrow> Header_Get (Header (fix_request r)) ''X-Cloud-Trace-Context'' = v
              \<and> (Header r ''X-Cloud-Trace-Context'' = Some [v] \<longrightarrow> fix_request r = r))
       \<and> (v = ''105445aa7843bc8bf206b12000100000/1;o=1''
            \<longrightarrow> Header_Get (Header (fix_request r)) ''X-Cloud-Trace-Context'' = v)
       \<and> fixTracingHeader h w r s = h w (fix_request r) s"
proof (intro conjI allI impI)
  assume "CHR ''/'' \<notin> set v"
  with assms show "fix_request r = r" by (simp add: fix_request_no_slash)
next
  fix t rest
  assume "v = t @ ''/'' @ rest \<and> CHR ''/'' \<notin> set t \<and> CHR '';'' \<notin> set rest"
  with assms show "fix_request r = r" by (simp add: fix_request_no_semicolon)
next
  fix t sp fl
  assume a: "v = t @ ''/'' @ sp @ '';'' @ fl \<and> CHR ''/'' \<notin> set t \<and> CHR '';'' \<notin> set sp
            \<and> (isl (ParseUint sp 10) \<longrightarrow> isl (ParseUint sp 16))"
  then have same: "(case ParseUint sp 10 of
                       Inr u \<Rightarrow> sp
                     | Inl err \<Rightarrow>
                         (case ParseUint sp 16 of
                            Inr n \<Rightarrow> FormatUint (n mod 2 ^ 32)
                          | Inl err1 \<Rightarrow> sp)) = sp"
    by (auto split: sum.splits)
  have fx: "fix_request r = r\<lparr>Header := Header_Set (Header r) ''X-Cloud-Trace-Context'' v\<rparr>"
    using a assms fix_request_split [of r t sp fl] by (simp only: same) simp
  show "Header_Get (Header (fix_request r)) ''X-Cloud-Trace-Context'' = v"
    by (simp add: fx Header_Get_Set)
  show "fix_request r = r" if "Header r ''X-Cloud-Trace-Context'' = Some [v]"
    using that by (simp add: fx Header_Set_same)
next
  assume v: "v = ''105445aa7843bc8bf206b12000100000/1;o=1''"
  have p: "ParseUint ''1'' 10 = Inr 1"
    by (simp add: ParseUint_def parse_digits.simps digit_of_def maxUint64_def)
  have "fix_request r = r\<lparr>Header := Header_Set (Header r) ''X-Cloud-Trace-Context''
      (''105445aa7843bc8bf206b12000100000'' @ ''/'' @ ''1'' @ '';'' @ ''o=1'')\<rparr>"
    using fix_request_split [of r "''105445aa7843bc8bf206b12000100000''" "''1''" "''o=1''"] assms v p
    by simp
  then show "Header_Get (Header (fix_request r)) ''X-Cloud-Trace-Context'' = v"
    using v by (simp add: Header_Get_Set)
next
  show "fixTracingHeader h w r s = h w (fix_request r) s" by (simp add: fixTracingHeader_def)
qed

theorem decimal_or_malformed_unchanged_witness:
  "fix_request (traced ''105445aa7843bc8bf206b12000100000/1;o=1'') =
     traced ''105445aa7843bc8bf206b12000100000/1;o=1''
   \<and> fix_request (traced ''no separators'') = traced ''no separators''
   \<and> fix_request (traced ''trace/span without flags'') = traced ''trace/span without flags''
   \<and> fix_request (traced ''t/xyz;o=1'') = traced ''t/xyz;o=1''"
proof -
  let ?k = "''X-Cloud-Trace-Context''"
  have g: "Header_Get (Header (traced v)) ?k = v" for v
    by (cases v) (simp_all add: traced_def Header_Get_def)
  have hd: "Header (traced v) ?k = Some [v]" for v
    by (simp add: traced_def)
  have p1: "\<not> isl (ParseUint ''1'' 10)"
    by (simp add: ParseUint_def parse_digits.simps digit_of_def maxUint64_def)
  have p2: "isl (ParseUint ''xyz'' 16)"
    by (simp add: ParseUint_def parse_digits.simps digit_of_def lower_def maxUint64_def)
  note th = decimal_or_malformed_unchanged [OF g]
  have "fix_request (traced ''105445aa7843bc8bf206b12000100000/1;o=1'') =
     traced ''105445aa7843bc8bf206b12000100000/1;o=1''"
    using th [of "''105445aa7843bc8bf206b12000100000/1;o=1''", THEN conjunct2, THEN conjunct2,
        THEN conjunct1, rule_format, of "''105445aa7843bc8bf206b12000100000''" "''1''" "''o=1''"]
      p1 hd by simp
  moreover have "fix_request (traced ''no separators'') = traced ''no separators''"
    using th [of "''no separators''", THEN conjunct1] by simp
  moreover have "fix_request (traced ''trace/span without flags'') = traced ''trace/span without flags''"
    using th [of "''trace/span without flags''", THEN conjunct2, THEN conjunct1, rule_format,
        of "''trace''" "''span without flags''"] by simp
  moreover have "fix_request (traced ''t/xyz;o=1'') = traced ''t/xyz;o=1''"
    using th [of "''t/xyz;o=1''", THEN conjunct2, THEN conjunct2,
        THEN conjunct1, rule_format, of "''t''" "''xyz''" "''o=1''"] p2 hd by simp
  ultimately show ?thesis by simp
qed


section \<open>The access log\<close>

lemma Write_StatusWriter:
  "Write (StatusWriter w st len) b =
     (StatusWriter (fst (Write w b)) (if st = 0 then 200 else st)
        (add_int64 len (fst (snd (Write w b)))),
      snd (Write w b))"
  by (simp add: Let_def split: prod.splits)

lemma Write_Response_count: "fst (snd (Write (Response c) b)) = int (min (length b) (room c))"
  by (simp add: Let_def)

declare Write.simps(2) [simp del]

declare Write_StatusWriter [simp]

lemma perform_StatusWriter:
  "perform (StatusWriter w st len) c =
     StatusWriter (perform w c)
       (case c of CallWriteHeader code \<Rightarrow> code
        | CallWrite b \<Rightarrow> (if st = 0 then 200 else st)
        | CallSetHeader k v \<Rightarrow> st)
       (case c of CallWrite b \<Rightarrow> add_int64 len (fst (snd (Write w b))) | _ \<Rightarrow> len)"
  by (cases c) (simp_all add: Write_StatusWriter)

lemma wrapped_foldl_perform:
  "wrapped (foldl perform (StatusWriter w st len) cs) = foldl perform w cs"
  by (induction cs arbitrary: w st len) (simp_all add: perform_StatusWriter)

lemma status_without_codes:
  "written_codes cs = [] \<Longrightarrow>
   sw_status (foldl perform (StatusWriter w st len) cs) =
     (if st = 0 \<and> writes cs \<noteq> [] then 200 else st)"
proof (induction cs arbitrary: w st len)
  case Nil
  then show ?case by simp
next
  case (Cons c cs)
  then show ?case by (cases c) (simp_all add: perform_StatusWriter)
qed

lemma status_last_code:
  assumes "written_codes cs \<noteq> []" and "last (written_codes cs) \<noteq> 0"
  shows "sw_status (foldl perform (StatusWriter w st len) cs) = last (written_codes cs)"
  using assms
proof (induction cs arbitrary: w st len)
  case Nil
  then show ?case by simp
next
  case (Cons c cs)
  show ?case
  proof (cases c)
    case (CallWriteHeader code)
    show ?thesis
    proof (cases "written_codes cs = []")
      case True
      with Cons.prems CallWriteHeader show ?thesis
        by (simp add: perform_StatusWriter status_without_codes)
    next
      case False
      with Cons.prems CallWriteHeader have "last (written_codes cs) \<noteq> 0" by simp
      with False CallWriteHeader Cons.IH show ?thesis by (simp add: perform_StatusWriter)
    qed
  next
    case (CallWrite b)
    with Cons show ?thesis by (simp add: perform_StatusWriter)
  next
    case (CallSetHeader k v)
    with Cons show ?thesis by (simp add: perform_StatusWriter)
  qed
qed

lemma Write_count_nonneg: "0 \<le> fst (snd (Write w b))"
  by (induction w) (simp_all add: Write_StatusWriter Write_Response_count del: Write.simps)

lemma accepted_nonneg: "n \<in> set (accepted w cs) \<Longrightarrow> 0 \<le> n"
proof (induction cs arbitrary: w)
  case Nil
  then show ?case by simp
next
  case (Cons c cs)
  then show ?case by (cases c) (auto simp: Write_count_nonneg)
qed

lemma sum_accepted_nonneg: "0 \<le> sum_list (accepted w cs)"
  by (rule sum_list_nonneg) (rule accepted_nonneg)

lemma add_int64_exact: "- (2 ^ 63) \<le> a + b \<Longrightarrow> a + b < 2 ^ 63 \<Longrightarrow> add_int64 a b = a + b"
  by (simp add: add_int64_def)

lemma length_foldl_perform:
  assumes "0 \<le> len" and "len + sum_list (accepted w cs) < 2 ^ 63"
  shows "sw_length (foldl perform (StatusWriter w st len) cs) = len + sum_list (accepted w cs)"
  using assms
proof (induction cs arbitrary: w st len)
  case Nil
  then show ?case by simp
next
  case (Cons c cs)
  show ?case
  proof (cases c)
    case (CallWrite b)
    let ?n = "fst (snd (Write w b))"
    have n0: "0 \<le> ?n" by (rule Write_count_nonneg)
    have rest0: "0 \<le> sum_list (accepted (fst (Write w b)) cs)" by (rule sum_accepted_nonneg)
    from Cons.prems CallWrite have tot: "len + ?n + sum_list (accepted (fst (Write w b)) cs) < 2 ^ 63"
      by simp
    then have "add_int64 len ?n = len + ?n"
      using n0 rest0 Cons.prems(1) by (intro add_int64_exact) simp_all
    moreover have "sw_length (foldl perform (StatusWriter (fst (Write w b)) (if st = 0 then 200 else st) (len + ?n)) cs)
        = len + ?n + sum_list (accepted (fst (Write w b)) cs)"
      using n0 Cons.prems(1) tot by (intro Cons.IH) simp_all
    ultimately show ?thesis using CallWrite by (simp add: perform_StatusWriter)
  next
    case (CallWriteHeader code)
    with Cons show ?thesis by (simp add: perform_StatusWriter)
  next
    case (CallSetHeader k v)
    with Cons show ?thesis by (simp add: perform_StatusWriter)
  qed
qed

lemma valid_codes [simp]: "\<not> invalid_code 200" "\<not> invalid_code 404"
  by (simp_all add: invalid_code_def)

lemma WriteHeader_returns: "\<not> invalid_code code \<Longrightarrow> \<not> WriteHeader_panics w code"
  by (induction w) simp_all

lemma WriteHeader_200_returns [simp]: "\<not> WriteHeader_panics w 200"
  by (rule WriteHeader_returns) simp

lemma panics_StatusWriter [simp]: "panics (StatusWriter w st len) c = panics w c"
  by (cases c) simp_all

lemma calling_returned:
  "returned (calling cs w r s) \<Longrightarrow> calling cs w r s = Returned (foldl perform w cs) s"
  by (induction cs arbitrary: w) (simp_all split: if_splits)

lemma world_of_calling [simp]: "world_of (calling cs w r s) = s"
  by (induction cs arbitrary: w) simp_all

lemma returned_calling_StatusWriter:
  "returned (calling cs (StatusWriter w st len) r s) = returned (calling cs w r s)"
  by (induction cs arbitrary: w st len) (simp_all add: perform_StatusWriter)

lemma no_codes_returns: "written_codes cs = [] \<Longrightarrow> returned (calling cs w r s)"
proof (induction cs arbitrary: w)
  case Nil
  then show ?case by simp
next
  case (Cons c cs)
  then show ?case by (cases c) simp_all
qed

lemma logHTTPRequest_calling:
  assumes "returned (calling cs w r s)"
  shows "logHTTPRequest (calling cs) w r s =
     Returned (foldl perform w cs)
       (s\<lparr>logged := logged s @
          [\<lparr>a_remote = RemoteAddr r, a_time = now s, a_method = Method r, a_url = URL r,
            a_proto = Proto r,
            a_status = sw_status (foldl perform (StatusWriter w 0 0) cs),
            a_length = sw_length (foldl perform (StatusWriter w 0 0) cs),
            a_millis = 0\<rparr>]\<rparr>)"
proof -
  from assms have "returned (calling cs (StatusWriter w 0 0) r s)"
    by (simp add: returned_calling_StatusWriter)
  then have "calling cs (StatusWriter w 0 0) r s =
      Returned (foldl perform (StatusWriter w 0 0) cs) s"
    by (rule calling_returned)
  then show ?thesis by (simp add: logHTTPRequest_def wrapped_foldl_perform)
qed

lemma logHTTPRequest_panicking:
  assumes "\<not> returned (calling cs w r s)"
  shows "\<not> returned (logHTTPRequest (calling cs) w r s)
       \<and> world_of (logHTTPRequest (calling cs) w r s) = s"
proof (cases "calling cs (StatusWriter w 0 0) r s")
  case (Returned sw s1)
  then have "returned (calling cs (StatusWriter w 0 0) r s)" by simp
  with assms show ?thesis by (simp add: returned_calling_StatusWriter)
next
  case (Panicked msg sw s1)
  moreover from Panicked have "s1 = s" using world_of_calling [of cs "StatusWriter w 0 0" r s] by simp
  ultimately show ?thesis by (simp add: logHTTPRequest_def)
qed

text \<open>
  What the recorder does with the status: when the handler returns, the access log
  shows the code of its last \<open>WriteHeader\<close> call (if that code is not 0, which a
  later \<open>Write\<close> would replace by 200), whether or not the library took it; a
  handler that panics logs nothing.
\<close>

lemma last_written_status_is_logged:
  assumes "returned (calling cs w r s)"
    and "written_codes cs \<noteq> []" and "last (written_codes cs) \<noteq> 0"
  shows "(let res = logHTTPRequest (calling cs) w r s in
          returned res \<and> writer_of res = foldl perform w cs
          \<and> map a_status (logged (world_of res)) =
              map a_status (logged s) @ [last (written_codes cs)])"
proof -
  have "sw_status (foldl perform (StatusWriter w 0 0) cs) = last (written_codes cs)"
    using assms(2,3) by (rule status_last_code)
  then show ?thesis by (simp add: logHTTPRequest_calling [OF assms(1)])
qed

text \<open>
  C3 at a handler that calls \<open>WriteHeader(404)\<close> and then \<open>WriteHeader(500)\<close>:
  the first status written is 404 and the client gets 404, but the recorder has stored
  the second status and the access log shows 500.
\<close>

theorem second_status_is_logged:
  "(let cs = [CallWriteHeader 404, CallWriteHeader 500];
        res = logHTTPRequest (calling cs) (fresh 100) example_request example_world
    in returned res
       \<and> hd (written_codes cs) = 404
       \<and> map a_status (logged (world_of res)) = [500]
       \<and> sent_status (connection (writer_of res)) = 404
       \<and> fst (serve primary_WriteTimeout (logHTTPRequest (calling cs)) 100
                example_request example_world) = Reply 404 [])"
  by (simp add: logHTTPRequest_def serve_def example_world_def fresh_def sent_status_def
      invalid_code_def)

text \<open>
  C4 at a handler that returns without a call on its writer: no \<open>WriteHeader\<close>
  was called, the connection sends status 200, and the access log shows status 0.
\<close>

theorem silent_handler_logs_status_zero:
  "(let res = logHTTPRequest (calling []) (fresh 100) example_request example_world
    in returned res
       \<and> map a_status (logged (world_of res)) = [0]
       \<and> sent_status (connection (writer_of res)) = 200)"
  by (simp add: logHTTPRequest_def example_world_def fresh_def sent_status_def)

text \<open>
  With no \<open>WriteHeader\<close> call and at least one \<open>Write\<close> the handler returns
  and the log shows status 200.
\<close>

theorem written_body_logs_200:
  assumes "written_codes cs = []" and "writes cs \<noteq> []"
  shows "(let res = logHTTPRequest (calling cs) w r s in
          returned res
          \<and> map a_status (logged (world_of res)) = map a_status (logged s) @ [200])"
proof -
  have ret: "returned (calling cs w r s)" using assms(1) by (rule no_codes_returns)
  have "sw_status (foldl perform (StatusWriter w 0 0) cs) = 200"
    using status_without_codes [OF assms(1), of w 0 0] assms(2) by simp
  then show ?thesis by (simp add: logHTTPRequest_calling [OF ret])
qed

theorem written_body_logs_200_witness:
  "map a_status (logged (world_of
     (logHTTPRequest (calling [CallSetHeader ''Content-Type'' ''text/plain'', CallWrite ''ok''])
        (fresh 100) example_request example_world))) = [200]"
  using written_body_logs_200
      [of "[CallSetHeader ''Content-Type'' ''text/plain'', CallWrite ''ok'']" "fresh 100"
        example_request example_world]
  by (simp add: Let_def example_world_def)

text \<open>
  When the handler returns, the logged length is the sum of the byte counts its
  \<open>Write\<close> calls returned (as long as it fits Go's 64-bit \<open>int\<close>); when it
  panics, in a \<open>WriteHeader\<close> with a code the library refuses, nothing is logged.
\<close>

theorem byte_count_is_logged:
  "(let res = logHTTPRequest (calling cs) w r s in
      returned res = returned (calling cs w r s)
      \<and> (returned (calling cs w r s) \<and> sum_list (accepted w cs) < 2 ^ 63 \<longrightarrow>
           map a_length (logged (world_of res)) =
             map a_length (logged s) @ [sum_list (accepted w cs)])
      \<and> (\<not> returned (calling cs w r s) \<longrightarrow> logged (world_of res) = logged s))"
proof (cases "returned (calling cs w r s)")
  case True
  have "sw_length (foldl perform (StatusWriter w 0 0) cs) = sum_list (accepted w cs)"
    if "sum_list (accepted w cs) < 2 ^ 63"
    using length_foldl_perform [of 0 w cs 0] that by simp
  with True show ?thesis by (simp add: logHTTPRequest_calling [OF True])
next
  case False
  with logHTTPRequest_panicking [OF False] show ?thesis by simp
qed

theorem byte_count_is_logged_witness:
  "map a_length (logged (world_of
     (logHTTPRequest (calling [CallWrite ''hello, '', CallWrite ''world''])
        (fresh 9) example_request example_world))) = [9]
   \<and> logged (world_of
     (logHTTPRequest (calling [CallWriteHeader 42, CallWrite ''hello''])
        (fresh 9) example_request example_world)) = []"
proof -
  have "accepted (fresh 9) [CallWrite ''hello, '', CallWrite ''world''] = [7, 2]"
    by (simp add: fresh_def Let_def)
  moreover have "returned (calling [CallWrite ''hello, '', CallWrite ''world'']
      (fresh 9) example_request example_world)"
    by simp
  moreover have "\<not> returned (calling [CallWriteHeader 42, CallWrite ''hello'']
      (fresh 9) example_request example_world)"
    by (simp add: fresh_def invalid_code_def)
  ultimately show ?thesis
    using byte_count_is_logged [of "[CallWrite ''hello, '', CallWrite ''world'']" "fresh 9"
        example_request example_world]
      byte_count_is_logged [of "[CallWriteHeader 42, CallWrite ''hello'']" "fresh 9"
        example_request example_world]
    by (simp add: Let_def example_world_def)
qed

section \<open>The handlers\<close>

lemma Split_not_empty: "Split s c \<noteq> []"
  by (induction s) auto

lemma length_Split: "length (Split s c) = Suc (length (filter (\<lambda>x. x = c) s))"
proof (induction s)
  case Nil
  then show ?case by simp
next
  case (Cons x xs)
  have "length (tl (Split xs c)) = length (Split xs c) - 1" by simp
  with Cons Split_not_empty [of xs c] show ?case by (cases "Split xs c") auto
qed

lemma Split_one_piece: "(length (Split s c) \<le> 1) = (c \<notin> set s)"
  by (auto simp: length_Split filter_empty_conv)

lemma scan_labels_panics:
  "(fst (scan_labels m lines) \<noteq> None) = (\<exists>text \<in> set lines. CHR ''='' \<notin> set text)"
proof (induction lines arbitrary: m)
  case Nil
  then show ?case by simp
next
  case (Cons line rest)
  show ?case
  proof (cases "CHR ''='' \<in> set line")
    case True
    then have "\<not> length (Split line (CHR ''='')) \<le> 1" by (simp only: Split_one_piece) simp
    with True Cons.IH show ?thesis by (simp add: Let_def del: One_nat_def)
  next
    case False
    then have "length (Split line (CHR ''='')) \<le> 1" by (simp only: Split_one_piece) simp
    with False show ?thesis by (simp add: Let_def del: One_nat_def)
  qed
qed

lemma Environ_entry_splits: "\<not> length (Split (k @ ''='' @ v) (CHR ''='')) \<le> 1"
  by (simp only: Split_one_piece) simp

lemma scan_environ_returns: "fst (scan_environ m (Environ e)) = None"
proof (induction e arbitrary: m)
  case Nil
  then show ?case by (simp add: Environ_def)
next
  case (Cons kv e)
  obtain k v where kv: "kv = (k, v)" by (cases kv)
  have "\<not> length (Split (k @ CHR ''='' # v) (CHR ''='')) \<le> 1"
    using Environ_entry_splits [of k v] by simp
  with Cons.IH kv show ?case
    by (simp add: Environ_def Let_def doFiltering_def del: Split.simps One_nat_def)
qed

lemma getEnvironmentVariables_returns:
  "\<exists>env s1. getEnvironmentVariables s = (Ok env, s1) \<and> podLabels s1 = podLabels s
     \<and> files s1 = files s \<and> environment s1 = environment s"
proof (cases "environmentVariables s")
  case None
  obtain m where m: "scan_environ Map.empty (Environ (environment s)) = (None, m)"
    using scan_environ_returns [of Map.empty "environment s"]
    by (cases "scan_environ Map.empty (Environ (environment s))") auto
  with None show ?thesis by (simp add: getEnvironmentVariables_def)
next
  case (Some m)
  then show ?thesis by (simp add: getEnvironmentVariables_def)
qed

lemma getServiceLabels_panics:
  assumes "podLabels s = None" and "files s (labels_path s) = Scanned lines scanErr"
  shows "(\<exists>msg s1. getServiceLabels s = (Panic msg, s1)) =
         (\<exists>text \<in> set lines. CHR ''='' \<notin> set text)"
proof -
  obtain p m where sl: "scan_labels Map.empty lines = (p, m)"
    by (cases "scan_labels Map.empty lines")
  have "(p \<noteq> None) = (\<exists>text \<in> set lines. CHR ''='' \<notin> set text)"
    using scan_labels_panics [of Map.empty lines] sl by simp
  moreover have "(\<exists>msg s1. getServiceLabels s = (Panic msg, s1)) = (p \<noteq> None)"
    using assms sl by (cases p) (auto simp: getServiceLabels_def labels_path_def Let_def)
  ultimately show ?thesis by simp
qed


lemma fix_request_Path [simp]: "Path (fix_request r) = Path r"
  by (simp add: fix_request_def Let_def)

lemma fix_request_Query [simp]: "Query (fix_request r) = Query r"
  by (simp add: fix_request_def Let_def)

lemma labels_path_cong:
  "environment s1 = environment s \<Longrightarrow> labels_path s1 = labels_path s"
  by (simp add: labels_path_def)

lemma getServiceInfo_panics:
  assumes "podLabels s = None" and "files s (labels_path s) = Scanned lines scanErr"
  shows "(\<exists>msg s2. getServiceInfo svc s = (Panic msg, s2)) =
         (\<exists>line \<in> set lines. CHR ''='' \<notin> set line)"
proof -
  obtain env s1 where e: "getEnvironmentVariables s = (Ok env, s1)"
    and s1: "podLabels s1 = podLabels s" "files s1 = files s" "environment s1 = environment s"
    using getEnvironmentVariables_returns [of s] by blast
  have lp: "labels_path s1 = labels_path s" using s1(3) by (rule labels_path_cong)
  have "(\<exists>msg s2. getServiceLabels s1 = (Panic msg, s2)) =
         (\<exists>line \<in> set lines. CHR ''='' \<notin> set line)"
    using assms s1 lp by (intro getServiceLabels_panics) simp_all
  moreover have "(\<exists>msg s2. getServiceInfo svc s = (Panic msg, s2)) =
                 (\<exists>msg s2. getServiceLabels s1 = (Panic msg, s2))"
    using e by (auto simp: getServiceInfo_def Let_def split: prod.splits outcome.splits)
  ultimately show ?thesis by simp
qed

lemma returned_logHTTPRequest:
  "returned (logHTTPRequest h w r s) = returned (h (StatusWriter w 0 0) r s)"
  by (cases "h (StatusWriter w 0 0) r s") (simp_all add: logHTTPRequest_def Let_def)

lemma returned_indexHandler:
  "returned (indexHandler l svc w r s) = (\<not> (\<exists>msg s2. getServiceInfo svc s = (Panic msg, s2)))"
  by (auto simp: indexHandler_def Let_def split: prod.splits outcome.splits)

lemma returned_callHandler:
  "returned (callHandler l svc w r s) = (\<not> (\<exists>msg s2. getServiceInfo svc s = (Panic msg, s2)))"
  by (auto simp: callHandler_def Let_def split: prod.splits outcome.splits)

lemma primaryHandler_index:
  "Path r = ''/'' \<Longrightarrow>
   primaryHandler l w r s =
     logHTTPRequest (addRequestTimeout (indexHandler l (newService ''Inspector''))) w (fix_request r) s"
  by (simp add: primaryHandler_def tracingWrapper_def ochttp_Handler_def fixTracingHeader_def
      getRouter_def Let_def)

lemma primaryHandler_call:
  "Path r = ''/call/'' \<Longrightarrow>
   primaryHandler l w r s =
     logHTTPRequest (addRequestTimeout (callHandler l (newService ''Inspector''))) w (fix_request r) s"
  by (simp add: primaryHandler_def tracingWrapper_def ochttp_Handler_def fixTracingHeader_def
      getRouter_def Let_def)

lemma primaryHandler_health:
  "Path r = ''/_ah/health/'' \<or> Path r = ''/_ah/ready/'' \<Longrightarrow>
   primaryHandler l w r s = logHTTPRequest (addRequestTimeout healthCheck) w (fix_request r) s"
  by (auto simp add: primaryHandler_def tracingWrapper_def ochttp_Handler_def fixTracingHeader_def
      getRouter_def Let_def)

lemma getServiceLabels_after_panic:
  "getServiceLabels s = (Panic msg, s1) \<Longrightarrow> \<exists>m. getServiceLabels s1 = (Ok m, s1)"
  by (auto simp: getServiceLabels_def Let_def split: option.splits labels_file.splits
      prod.splits)

text \<open>
  C10.  On the first call (the cache is \<open>nil\<close>) with a label file that opens,
  \<open>getServiceLabels\<close> panics exactly when one of the scanned lines has no
  \<open>=\<close>: \<open>pair[1]\<close> is then out of range.  A request to \<open>/\<close> reaches it:
  the handler of the primary server returns exactly when every scanned line has an
  \<open>=\<close>.  The panic leaves the cache set, so the calls after it return.
\<close>

theorem labels_line_without_equals_panics:
  assumes "podLabels s = None" and "files s (labels_path s) = Scanned lines scanErr"
  shows "(\<exists>msg s1. getServiceLabels s = (Panic msg, s1)) =
           (\<exists>line \<in> set lines. CHR ''='' \<notin> set line)
       \<and> (Path r = ''/'' \<longrightarrow>
           returned (primaryHandler l w r s) = (\<forall>line \<in> set lines. CHR ''='' \<in> set line))
       \<and> (\<forall>msg s1. getServiceLabels s = (Panic msg, s1) \<longrightarrow>
             (\<exists>m. getServiceLabels s1 = (Ok m, s1)))"
proof -
  have "returned (primaryHandler l w r s) = (\<forall>line \<in> set lines. CHR ''='' \<in> set line)"
    if "Path r = ''/''"
    using that getServiceInfo_panics [OF assms, of "newService ''Inspector''"]
    by (simp add: primaryHandler_index returned_logHTTPRequest addRequestTimeout_def
        returned_indexHandler)
  with getServiceLabels_panics [OF assms] getServiceLabels_after_panic show ?thesis by blast
qed

lemma connection_WriteHeader_fresh:
  "connection (WriteHeader (SetHeader (fresh n) k v) 200) =
     \<lparr>wroteHeader = True, res_status = 200, res_header = [k \<mapsto> [v]], res_body = [], room = n\<rparr>"
  by (simp add: fresh_def Header_Set_def)

lemma getJSONResponse_fields:
  "fst (getJSONResponse l r s) =
     (case Query r ''url'' of
        None \<Rightarrow> [''error'' \<mapsto> JString ''ERROR: Invalid url param provided for url to call'']
      | Some urlParams \<Rightarrow>
          if length urlParams \<noteq> 1 \<or> urlParams ! 0 = [] then
            [''error'' \<mapsto> JString ''ERROR: Invalid url param provided for url to call'']
          else
            (case fst (Get l (urlParams ! 0)) of
               GetFailed err \<Rightarrow>
                 [''url'' \<mapsto> JString (urlParams ! 0),
                  ''error'' \<mapsto> JString (''ERROR: Error calling url '' @ urlParams ! 0 @ '': '' @ err)]
             | ReadFailed err \<Rightarrow>
                 [''url'' \<mapsto> JString (urlParams ! 0),
                  ''error'' \<mapsto> JString (''ERROR: Error reading response body: '' @ err)]
             | GotBody b \<Rightarrow>
                 (case Unmarshal l b of
                    Inl err \<Rightarrow>
                      [''url'' \<mapsto> JString (urlParams ! 0),
                       ''error'' \<mapsto> JString (''ERROR: Error json decoding response body: '' @ err),
                       ''response_raw'' \<mapsto> JString b]
                  | Inr target \<Rightarrow>
                      [''url'' \<mapsto> JString (urlParams ! 0), ''response'' \<mapsto> target])))"
  by (auto simp: getJSONResponse_def Let_def split: option.splits prod.splits get_result.splits
      sum.splits)

lemma getJSONResponse_request:
  "Query r1 = Query r \<Longrightarrow> fst (getJSONResponse l r1 s1) = fst (getJSONResponse l r s)"
  by (simp add: getJSONResponse_fields)

lemma health_result:
  "logHTTPRequest (addRequestTimeout healthCheck) (fresh n) r s =
     Returned (WriteHeader (fresh n) 200)
       (s\<lparr>logged := logged s @
          [\<lparr>a_remote = RemoteAddr r, a_time = now s, a_method = Method r, a_url = URL r,
            a_proto = Proto r, a_status = 200, a_length = 0, a_millis = 0\<rparr>]\<rparr>)"
  by (simp add: logHTTPRequest_def addRequestTimeout_def healthCheck_def Let_def)

lemma index_result:
  "logHTTPRequest (addRequestTimeout (indexHandler l svc)) (fresh n) r s =
     (case getServiceInfo svc s of
        (Panic msg, s1) \<Rightarrow>
          Panicked msg (WriteHeader (SetHeader (fresh n) ''Content-Type'' ''application/json'') 200) s1
      | (Ok info, s1) \<Rightarrow>
          (let r1 = r\<lparr>deadline := WithTimeout (deadline r) (now s) requestTimeoutDuration\<rparr>;
               b = Encode l (JObject [''service'' \<mapsto> info, ''request'' \<mapsto> getRequestInfo r1]);
               w2 = WriteHeader (SetHeader (fresh n) ''Content-Type'' ''application/json'') 200
           in Returned (fst (Write w2 b))
                (s1\<lparr>logged := logged s1 @
                   [\<lparr>a_remote = RemoteAddr r, a_time = now s1, a_method = Method r,
                     a_url = URL r, a_proto = Proto r, a_status = 200,
                     a_length = add_int64 0 (fst (snd (Write w2 b))),
                     a_millis = (now s1 - now s) div 1000000\<rparr>]\<rparr>)))"
  by (simp add: logHTTPRequest_def addRequestTimeout_def indexHandler_def Let_def
      split: prod.splits outcome.splits)

lemma call_result:
  "logHTTPRequest (addRequestTimeout (callHandler l svc)) (fresh n) r s =
     (case getServiceInfo svc s of
        (Panic msg, s1) \<Rightarrow>
          Panicked msg (WriteHeader (SetHeader (fresh n) ''Content-Type'' ''application/json'') 200) s1
      | (Ok info, s1) \<Rightarrow>
          (let r1 = r\<lparr>deadline := WithTimeout (deadline r) (now s) requestTimeoutDuration\<rparr>;
               s2 = snd (getJSONResponse l r1 s1);
               b = Encode l (JObject [''service'' \<mapsto> info, ''request'' \<mapsto> getRequestInfo r1,
                                      ''called'' \<mapsto> JObject (fst (getJSONResponse l r s))]);
               w2 = WriteHeader (SetHeader (fresh n) ''Content-Type'' ''application/json'') 200
           in Returned (fst (Write w2 b))
                (s2\<lparr>logged := logged s2 @
                   [\<lparr>a_remote = RemoteAddr r, a_time = now s2, a_method = Method r,
                     a_url = URL r, a_proto = Proto r, a_status = 200,
                     a_length = add_int64 0 (fst (snd (Write w2 b))),
                     a_millis = (now s2 - now s) div 1000000\<rparr>]\<rparr>)))"
proof -
  let ?r1 = "r\<lparr>deadline := WithTimeout (deadline r) (now s) requestTimeoutDuration\<rparr>"
  have "fst (getJSONResponse l ?r1 s1) = fst (getJSONResponse l r s)" for s1
    by (rule getJSONResponse_request) simp
  then show ?thesis
    by (simp add: logHTTPRequest_def addRequestTimeout_def callHandler_def Let_def
        case_prod_beta split: outcome.splits)
qed


lemma take_min_length: "take (min (length b) n) b = take n b"
  by (simp add: min_def)

lemma body_after_Write:
  "res_body (connection (fst (Write (WriteHeader (SetHeader (fresh n) k v) 200) b))) = take n b"
  by (simp add: fresh_def Let_def take_min_length)

lemma status_after_Write:
  "wroteHeader (connection (fst (Write (WriteHeader (SetHeader (fresh n) k v) 200) b)))
   \<and> res_status (connection (fst (Write (WriteHeader (SetHeader (fresh n) k v) 200) b))) = 200"
  by (simp add: fresh_def Let_def)

lemma status_after_WriteHeader:
  "wroteHeader (connection (WriteHeader (SetHeader (fresh n) k v) 200))
   \<and> res_status (connection (WriteHeader (SetHeader (fresh n) k v) 200)) = 200
   \<and> res_body (connection (WriteHeader (SetHeader (fresh n) k v) 200)) = []"
  by (simp add: fresh_def)

lemma now_getEnvironmentVariables: "getEnvironmentVariables s = (x, s1) \<Longrightarrow> now s1 = now s"
  by (auto simp: getEnvironmentVariables_def split: option.splits prod.splits)

lemma now_getServiceLabels: "getServiceLabels s = (x, s1) \<Longrightarrow> now s1 = now s"
  by (auto simp: getServiceLabels_def Let_def split: option.splits prod.splits
      labels_file.splits)

lemma now_getServiceInfo: "getServiceInfo svc s = (x, s2) \<Longrightarrow> now s2 = now s"
proof -
  assume a: "getServiceInfo svc s = (x, s2)"
  obtain y s1 where e: "getEnvironmentVariables s = (y, s1)"
    by (cases "getEnvironmentVariables s")
  then have n1: "now s1 = now s" by (rule now_getEnvironmentVariables)
  obtain z s3 where l: "getServiceLabels s1 = (z, s3)" by (cases "getServiceLabels s1")
  then have n3: "now s3 = now s1" by (rule now_getServiceLabels)
  from a e l have "s2 = s1 \<or> s2 = s3"
    by (cases y; cases z) (auto simp: getServiceInfo_def Let_def)
  with n1 n3 show ?thesis by auto
qed

lemma now_getJSONResponse: "now (snd (getJSONResponse l r s)) = now s + call_time l r"
  by (auto simp: getJSONResponse_def call_time_def Let_def
      split: option.splits prod.splits get_result.splits sum.splits)

lemma call_time_request: "Query r1 = Query r \<Longrightarrow> call_time l r1 = call_time l r"
  by (simp add: call_time_def)

lemma one_url: "length ps = 1 \<Longrightarrow> ps = [ps ! 0]"
  by (cases ps) simp_all

lemma called_without_error:
  "(fst (getJSONResponse l r s) ''error'' = None) =
     (\<exists>u b t. Query r ''url'' = Some [u] \<and> u \<noteq> [] \<and> fst (Get l u) = GotBody b
        \<and> Unmarshal l b = Inr t \<and> fst (getJSONResponse l r s) ''response'' = Some t)"
proof (cases "Query r ''url''")
  case None
  then show ?thesis by (simp add: getJSONResponse_fields)
next
  case (Some ps)
  show ?thesis
  proof (cases "length ps \<noteq> 1 \<or> ps ! 0 = []")
    case True
    with Some show ?thesis by (auto simp: getJSONResponse_fields)
  next
    case False
    then have ps: "ps = [ps ! 0]" "ps ! 0 \<noteq> []" using one_url by auto
    show ?thesis
    proof (cases "fst (Get l (ps ! 0))")
      case (GetFailed e)
      with Some False ps show ?thesis
        by (simp add: getJSONResponse_fields)
    next
      case (ReadFailed e)
      with Some False ps show ?thesis
        by (simp add: getJSONResponse_fields)
    next
      case (GotBody b)
      show ?thesis
      proof (cases "Unmarshal l b")
        case (Inl e)
        with Some False ps GotBody show ?thesis
          by (simp add: getJSONResponse_fields)
      next
        case (Inr t)
        with Some False ps GotBody show ?thesis
          by (simp add: getJSONResponse_fields) blast
      qed
    qed
  qed
qed

lemma called_raw:
  assumes "Query r ''url'' = Some [u]" and "u \<noteq> []" and "fst (Get l u) = GotBody b"
    and "Unmarshal l b = Inl e"
  shows "fst (getJSONResponse l r s) ''response_raw'' = Some (JString b)
       \<and> fst (getJSONResponse l r s) ''error'' =
           Some (JString (''ERROR: Error json decoding response body: '' @ e))"
  using assms by (simp add: getJSONResponse_fields)


lemma index_status:
  "(let res = logHTTPRequest (addRequestTimeout (indexHandler l svc)) (fresh n) r s in
      wroteHeader (connection (writer_of res)) \<and> res_status (connection (writer_of res)) = 200
      \<and> (\<not> returned res \<longrightarrow> res_body (connection (writer_of res)) = [])
      \<and> now (world_of res) = now s
      \<and> (returned res \<longrightarrow>
           map a_status (logged (world_of res)) =
             map a_status (logged (snd (getServiceInfo svc s))) @ [200]))"
proof (cases "getServiceInfo svc s")
  case (Pair x s1)
  then have "now s1 = now s" by (rule now_getServiceInfo)
  with Pair show ?thesis
    by (simp add: index_result Let_def status_after_Write status_after_WriteHeader
        split: outcome.splits)
qed

lemma call_status:
  "(let res = logHTTPRequest (addRequestTimeout (callHandler l svc)) (fresh n) r s in
      wroteHeader (connection (writer_of res)) \<and> res_status (connection (writer_of res)) = 200
      \<and> (\<not> returned res \<longrightarrow> res_body (connection (writer_of res)) = [])
      \<and> (returned res \<longrightarrow> now (world_of res) = now s + call_time l r)
      \<and> (returned res \<longrightarrow>
           (\<exists>info req. res_body (connection (writer_of res)) =
              take n (Encode l (JObject [''service'' \<mapsto> info, ''request'' \<mapsto> req,
                ''called'' \<mapsto> JObject (fst (getJSONResponse l r s))])))))"
proof (cases "getServiceInfo svc s")
  case (Pair x s1)
  then have n1: "now s1 = now s" by (rule now_getServiceInfo)
  let ?r1 = "r\<lparr>deadline := WithTimeout (deadline r) (now s) requestTimeoutDuration\<rparr>"
  have "call_time l ?r1 = call_time l r" by (rule call_time_request) simp
  then have "now (snd (getJSONResponse l ?r1 s1)) = now s + call_time l r"
    using n1 by (simp add: now_getJSONResponse)
  with Pair show ?thesis
    by (auto simp add: call_result Let_def status_after_Write status_after_WriteHeader
        body_after_Write split: outcome.splits)
qed

lemma health_status:
  "(let res = logHTTPRequest (addRequestTimeout healthCheck) (fresh n) r s in
      returned res \<and> wroteHeader (connection (writer_of res))
      \<and> res_status (connection (writer_of res)) = 200
      \<and> res_body (connection (writer_of res)) = []
      \<and> now (world_of res) = now s)"
  by (simp add: health_result Let_def) (simp add: fresh_def)

lemma serve_cases:
  assumes "wroteHeader (connection (writer_of (h (fresh n) r s)))"
    and "res_status (connection (writer_of (h (fresh n) r s))) = 200"
    and "\<not> returned (h (fresh n) r s) \<longrightarrow> res_body (connection (writer_of (h (fresh n) r s))) = []"
  shows "fst (serve t h n r s) =
     (if \<not> returned (h (fresh n) r s) \<or> t < now (world_of (h (fresh n) r s)) - now s
      then NoReply
      else Reply 200 (res_body (connection (writer_of (h (fresh n) r s)))))"
  using assms by (cases "h (fresh n) r s") (simp_all add: serve_def sent_status_def)

text \<open>
  C9, as the code has it.  For a request to one of the four documented paths on a new
  connection of the primary server, whatever the request, the outbound call and the
  world are: the handler writes status 200 and no other status, so the client gets
  either status 200 with the body the handler wrote, or no response at all, never
  another status.  It gets no response exactly when the handler panics or returns
  after the server's write timeout of 10 seconds.  The health endpoints always answer
  200 with an empty body.  \<open>/\<close> and \<open>/call/\<close> panic exactly when reading the
  service information panics (C10), which depends on neither the request nor the
  outbound call; the time a handler takes is the time of the outbound call of
  \<open>/call/\<close>, and none on the other paths and for a missing or malformed
  parameter.  On \<open>/call/\<close> the body is the encoding of an object whose
  \<open>called\<close> member is the map of \<open>getJSONResponse\<close>; that map lacks
  \<open>error\<close> exactly when the parameter named one non-empty URL, the call gave a
  body and the body decoded (then \<open>response\<close> holds it), and it holds the body as
  \<open>response_raw\<close> when decoding failed.
\<close>

theorem documented_endpoints_answer_200:
  assumes "Path r = ''/'' \<or> Path r = ''/call/'' \<or> Path r = ''/_ah/health/'' \<or> Path r = ''/_ah/ready/''"
  shows "(let res = primaryHandler l (fresh n) r s;
              rep = fst (primaryServer l n r s);
              called = fst (getJSONResponse l r s)
          in wroteHeader (connection (writer_of res))
           \<and> res_status (connection (writer_of res)) = 200
           \<and> (returned res \<longrightarrow> sent_status (connection (writer_of res)) = 200)
           \<and> (rep = NoReply \<or> rep = Reply 200 (res_body (connection (writer_of res))))
           \<and> (rep = NoReply) =
               (\<not> returned res \<or> primary_WriteTimeout < now (world_of res) - now s)
           \<and> (Path r = ''/_ah/health/'' \<or> Path r = ''/_ah/ready/'' \<longrightarrow>
                returned res \<and> rep = Reply 200 [])
           \<and> (Path r = ''/'' \<or> Path r = ''/call/'' \<longrightarrow>
                returned res =
                  (\<not> (\<exists>msg s2. getServiceInfo (newService ''Inspector'') s = (Panic msg, s2))))
           \<and> (Path r \<noteq> ''/call/'' \<longrightarrow> now (world_of res) = now s)
           \<and> (Path r = ''/call/'' \<and> returned res \<longrightarrow>
                now (world_of res) = now s + call_time l r)
           \<and> (Path r = ''/call/'' \<and> returned res \<longrightarrow>
                (\<exists>info req. res_body (connection (writer_of res)) =
                   take n (Encode l (JObject [''service'' \<mapsto> info, ''request'' \<mapsto> req,
                     ''called'' \<mapsto> JObject called]))))
           \<and> (called ''error'' = None) =
                (\<exists>u b t. Query r ''url'' = Some [u] \<and> u \<noteq> [] \<and> fst (Get l u) = GotBody b
                   \<and> Unmarshal l b = Inr t \<and> called ''response'' = Some t)
           \<and> (\<forall>u b e. Query r ''url'' = Some [u] \<and> u \<noteq> [] \<and> fst (Get l u) = GotBody b
                 \<and> Unmarshal l b = Inl e \<longrightarrow> called ''response_raw'' = Some (JString b)))"
proof -
  let ?res = "primaryHandler l (fresh n) r s"
  let ?rep = "fst (primaryServer l n r s)"
  let ?svc = "newService ''Inspector''"
  have q: "fst (getJSONResponse l (fix_request r) s) = fst (getJSONResponse l r s)"
    by (rule getJSONResponse_request) simp
  have ct: "call_time l (fix_request r) = call_time l r"
    by (rule call_time_request) simp
  have st: "wroteHeader (connection (writer_of ?res)) \<and> res_status (connection (writer_of ?res)) = 200"
    using assms index_status [of l ?svc n "fix_request r" s]
      call_status [of l ?svc n "fix_request r" s]
      health_status [of n "fix_request r" s]
    by (auto simp: primaryHandler_index primaryHandler_call primaryHandler_health Let_def)
  then have sent: "sent_status (connection (writer_of ?res)) = 200"
    by (simp add: sent_status_def)
  have empty: "\<not> returned ?res \<longrightarrow> res_body (connection (writer_of ?res)) = []"
    using assms index_status [of l ?svc n "fix_request r" s]
      call_status [of l ?svc n "fix_request r" s]
      health_status [of n "fix_request r" s]
    by (auto simp: primaryHandler_index primaryHandler_call primaryHandler_health Let_def)
  have rep: "?rep =
     (if \<not> returned ?res \<or> primary_WriteTimeout < now (world_of ?res) - now s then NoReply
      else Reply 200 (res_body (connection (writer_of ?res))))"
    unfolding primaryServer_def using st empty by (intro serve_cases) simp_all
  have r1: "?rep = NoReply \<or> ?rep = Reply 200 (res_body (connection (writer_of ?res)))"
    unfolding rep by simp
  have r2: "(?rep = NoReply) =
      (\<not> returned ?res \<or> primary_WriteTimeout < now (world_of ?res) - now s)"
    unfolding rep by simp
  have h: "returned ?res \<and> ?rep = Reply 200 []"
    if "Path r = ''/_ah/health/'' \<or> Path r = ''/_ah/ready/''"
  proof -
    from that have
      "returned ?res \<and> res_body (connection (writer_of ?res)) = [] \<and> now (world_of ?res) = now s"
      using health_status [of n "fix_request r" s]
      by (simp add: primaryHandler_health Let_def)
    then show ?thesis unfolding rep by simp
  qed
  have p: "returned ?res =
      (\<not> (\<exists>msg s2. getServiceInfo ?svc s = (Panic msg, s2)))"
    if "Path r = ''/'' \<or> Path r = ''/call/''"
    using that
    by (auto simp: primaryHandler_index primaryHandler_call returned_logHTTPRequest
        addRequestTimeout_def returned_indexHandler returned_callHandler)
  have t0: "now (world_of ?res) = now s" if "Path r \<noteq> ''/call/''"
    using that assms index_status [of l ?svc n "fix_request r" s]
      health_status [of n "fix_request r" s]
    by (auto simp: primaryHandler_index primaryHandler_health Let_def)
  have t1: "now (world_of ?res) = now s + call_time l r"
    if "Path r = ''/call/'' \<and> returned ?res"
  proof -
    from that have p: "Path r = ''/call/''" and rr: "returned ?res" by simp_all
    have eq: "?res = logHTTPRequest (addRequestTimeout (callHandler l ?svc))
        (fresh n) (fix_request r) s"
      using p by (rule primaryHandler_call)
    show ?thesis
      using call_status [of l ?svc n "fix_request r" s] rr
      unfolding eq ct Let_def by blast
  qed
  have c: "\<exists>info req. res_body (connection (writer_of ?res)) =
                   take n (Encode l (JObject [''service'' \<mapsto> info, ''request'' \<mapsto> req,
                     ''called'' \<mapsto> JObject (fst (getJSONResponse l r s))]))"
    if "Path r = ''/call/'' \<and> returned ?res"
  proof -
    from that have p: "Path r = ''/call/''" and rr: "returned ?res" by simp_all
    have eq: "?res = logHTTPRequest (addRequestTimeout (callHandler l ?svc))
        (fresh n) (fix_request r) s"
      using p by (rule primaryHandler_call)
    show ?thesis
      using call_status [of l ?svc n "fix_request r" s] rr
      unfolding eq q Let_def by blast
  qed
  show ?thesis
    unfolding Let_def
    using st sent r1 r2 h p t0 t1 c called_without_error [of l r s] called_raw [of r _ l _ _ s]
    by blast
qed

theorem labels_line_without_equals_panics_witness:
  "(\<exists>msg s1. getServiceLabels (labelled_world [''app=web'', ''broken'']) = (Panic msg, s1))
   \<and> \<not> returned (primaryHandler example_lib (fresh 4096) example_request
          (labelled_world [''app=web'', ''broken'']))
   \<and> returned (primaryHandler example_lib (fresh 4096) example_request
          (labelled_world [''app=web'', ''tier=front'']))"
proof -
  have a: "podLabels (labelled_world lines) = None" for lines
    by (simp add: labelled_world_def example_world_def)
  have b: "files (labelled_world lines) (labels_path (labelled_world lines)) = Scanned lines None"
    for lines
    by (simp add: labelled_world_def example_world_def)
  have p: "Path example_request = ''/''" by (simp add: example_request_def)
  show ?thesis
    using labels_line_without_equals_panics [OF a b, of "[''app=web'', ''broken'']"
        example_request example_lib "fresh 4096"]
      labels_line_without_equals_panics [OF a b, of "[''app=web'', ''tier=front'']"
        example_request example_lib "fresh 4096"] p
    by simp
qed

theorem documented_endpoints_answer_200_witness:
  "fst (primaryServer example_lib 4096 call_request example_world) =
     Reply 200 (res_body (connection (writer_of
       (primaryHandler example_lib (fresh 4096) call_request example_world))))
   \<and> fst (getJSONResponse example_lib call_request example_world) ''error'' \<noteq> None"
proof -
  let ?res = "primaryHandler example_lib (fresh 4096) call_request example_world"
  let ?rep = "fst (primaryServer example_lib 4096 call_request example_world)"
  let ?called = "fst (getJSONResponse example_lib call_request example_world)"
  have p: "Path call_request = ''/call/''" by (simp add: call_request_def example_request_def)
  then have paths: "Path call_request = ''/'' \<or> Path call_request = ''/call/''
      \<or> Path call_request = ''/_ah/health/'' \<or> Path call_request = ''/_ah/ready/''"
    by simp
  note at_call = documented_endpoints_answer_200 [OF paths, of example_lib 4096 example_world,
      unfolded Let_def]
  have "\<not> (\<exists>msg s2. getServiceInfo (newService ''Inspector'') example_world = (Panic msg, s2))"
    by (simp add: getServiceInfo_def getEnvironmentVariables_def getServiceLabels_def
        Environ_def example_world_def Let_def IsDevelopment_def Getenv_def)
  with at_call p have ret: "returned ?res" by blast
  have "call_time example_lib call_request = 5000000"
    by (simp add: call_time_def call_request_def example_lib_def)
  moreover have "now example_world = 0" by (simp add: example_world_def)
  moreover from at_call p ret have
    "now (world_of ?res) = now example_world + call_time example_lib call_request"
    by blast
  ultimately have "\<not> primary_WriteTimeout < now (world_of ?res) - now example_world"
    by (simp add: primary_WriteTimeout_def)
  with at_call ret have "?rep \<noteq> NoReply" by blast
  with at_call have rep: "?rep = Reply 200 (res_body (connection (writer_of ?res)))" by blast
  have "fst (Get example_lib u) \<noteq> GotBody b" for u b by (simp add: example_lib_def)
  then have "\<not> (\<exists>u b t. Query call_request ''url'' = Some [u] \<and> u \<noteq> []
      \<and> fst (Get example_lib u) = GotBody b
      \<and> Unmarshal example_lib b = Inr t \<and> ?called ''response'' = Some t)"
    by blast
  with at_call have "?called ''error'' \<noteq> None" by blast
  with rep show ?thesis by blast
qed

text \<open>
  The claim as written fails: when the outbound call of \<open>/call/\<close> breaks off after
  11 seconds, the handler puts the error into the body, writes status 200 and returns,
  the access log shows 200, and the client gets no response: the write timeout of the
  primary server has passed.
\<close>

theorem slow_call_gets_no_reply_counterexample:
  "Path call_request = ''/call/''
   \<and> returned (primaryHandler slow_lib (fresh 4096) call_request example_world)
   \<and> fst (getJSONResponse slow_lib call_request example_world) ''error'' =
       Some (JString ''ERROR: Error reading response body: unexpected EOF'')
   \<and> map a_status (logged (snd (primaryServer slow_lib 4096 call_request example_world))) = [200]
   \<and> fst (primaryServer slow_lib 4096 call_request example_world) = NoReply"
proof -
  have info: "\<exists>info. getServiceInfo (newService ''Inspector'') example_world =
      (Ok info, example_world\<lparr>environmentVariables := Some Map.empty,
         podLabels := Some [''error'' \<mapsto>
           ''ERROR: Error opening file /etc/podinfo/labels: no such file or directory'']\<rparr>)"
    by (simp add: getServiceInfo_def getEnvironmentVariables_def getServiceLabels_def
        Environ_def example_world_def Let_def IsDevelopment_def Getenv_def)
  have p: "Path call_request = ''/call/''" by (simp add: call_request_def example_request_def)
  have fr: "Query (fix_request call_request) = Query call_request"
    "RemoteAddr (fix_request call_request) = RemoteAddr call_request" 
    by (simp_all add: fix_request_def Let_def)
  from info obtain info where i: "getServiceInfo (newService ''Inspector'') example_world =
      (Ok info, example_world\<lparr>environmentVariables := Some Map.empty,
         podLabels := Some [''error'' \<mapsto>
           ''ERROR: Error opening file /etc/podinfo/labels: no such file or directory'']\<rparr>)"
    by blast
  have j: "getJSONResponse slow_lib r s =
      ([''url'' \<mapsto> JString ''http://other/'',
        ''error'' \<mapsto> JString ''ERROR: Error reading response body: unexpected EOF''],
       s\<lparr>now := now s + 11000000000\<rparr>)"
    if "Query r = Query call_request" for r s
    using that
    by (simp add: getJSONResponse_def call_request_def slow_lib_def example_lib_def Let_def)
  have res: "primaryHandler slow_lib (fresh 4096) call_request example_world =
      logHTTPRequest (addRequestTimeout (callHandler slow_lib (newService ''Inspector'')))
        (fresh 4096) (fix_request call_request) example_world"
    using p by (rule primaryHandler_call)
  show ?thesis
    unfolding primaryServer_def serve_def res call_result i
    by (simp add: p j fr Let_def status_after_Write example_world_def sent_status_def
        primary_WriteTimeout_def)
qed

section \<open>The order of the middleware\<close>

lemma adapt_foldl: "adapt h ms = foldl (\<lambda>h m. m h) h ms"
  by (induction ms arbitrary: h) simp_all

lemma adapt_snoc: "adapt h (ms @ [m]) = m (adapt h ms)"
  by (simp add: adapt_foldl)

text \<open>
  C1.  \<open>adapt\<close> is the left fold of application over the adapters in the order
  they are given: the first adapter wraps the terminal handler, each adapter wraps what
  the adapters before it have built, and the last adapter wraps all the others, so it
  is the outermost when the handler is called.  For the routes of the server, the
  access log wraps the request timeout.
\<close>

theorem adapt_last_is_outermost:
  "adapt h ms = foldl (\<lambda>h m. m h) h ms
   \<and> adapt h (ms @ [m]) = m (adapt h ms)
   \<and> adapt h (m # ms) = adapt (m h) ms
   \<and> (i < length ms \<longrightarrow> adapt h (take (Suc i) ms) = (ms ! i) (adapt h (take i ms)))
   \<and> adapt g [addRequestTimeout, logHTTPRequest] = logHTTPRequest (addRequestTimeout g)"
proof -
  have "adapt h (take (Suc i) ms) = (ms ! i) (adapt h (take i ms))" if "i < length ms"
    using that by (simp add: take_Suc_conv_app_nth adapt_snoc)
  then show ?thesis by (simp add: adapt_foldl)
qed

theorem adapt_last_is_outermost_witness:
  "adapt healthCheck ([addRequestTimeout] @ [logHTTPRequest]) =
     logHTTPRequest (adapt healthCheck [addRequestTimeout])
   \<and> adapt healthCheck [addRequestTimeout, logHTTPRequest] =
     logHTTPRequest (addRequestTimeout healthCheck)"
  using adapt_last_is_outermost [of healthCheck "[addRequestTimeout]" logHTTPRequest 0 healthCheck]
  by simp

section \<open>The shutdown sequence\<close>

lemmas step_defs = step_def coordinator_step_def main_step_def listen_fails_def
  liveness_step_def emit_def

lemma run_snoc: "run e (cs @ [c]) = step e (run e cs) c"
  by (simp add: run_def)

lemma run_Nil: "run e [] = started"
  by (simp add: run_def)

lemma consistent_started: "consistent e started"
  by (simp add: consistent_def started_def)

lemma consistent_step: "consistent e p \<Longrightarrow> consistent e (step e p c)"
  by (cases c; cases "cpc p"; cases "mpc p")
     (auto simp: consistent_def step_defs split: server.splits)

lemma consistent_run: "consistent e (run e cs)"
  by (induction cs rule: rev_induct) (simp_all add: run_Nil run_snoc consistent_started consistent_step)



lemma recorded_started: "recorded e started"
  by (simp add: recorded_def started_def)

lemma recorded_step:
  assumes "consistent e p" and "recorded e p"
  shows "recorded e (step e p c)"
proof (cases "exit_code p = None")
  case False
  with assms(2) show ?thesis by (simp add: step_def)
next
  case True
  show ?thesis
  proof (cases c)
    case Signal
    with True assms show ?thesis
      by (auto simp: recorded_def consistent_def step_defs)
  next
    case (Coordinator res)
    with True assms show ?thesis
      by (cases "cpc p"; cases res) (auto simp: recorded_def consistent_def step_defs)
  next
    case (Main res)
    with True assms show ?thesis
      by (cases "mpc p"; cases res) (auto simp: recorded_def consistent_def step_defs)
  next
    case LivenessListener
    with True assms show ?thesis
      by (auto simp: recorded_def consistent_def step_defs)
  next
    case (ListenFails srv err)
    with True assms show ?thesis
      by (cases srv) (auto simp: recorded_def consistent_def step_defs)
  qed
qed

lemma recorded_run: "recorded e (run e cs)"
  by (induction cs rule: rev_induct)
     (simp_all add: run_Nil run_snoc recorded_started recorded_step consistent_run)





lemma logs_error_append: "logs_error err rest \<Longrightarrow> logs_error err (rest @ ys)"
  by (cases "(err, rest)" rule: logs_error.cases) auto

lemma logs_error_not_Nil: "logs_error err rest \<Longrightarrow> rest \<noteq> []"
  by auto

lemma pending_Cons: "rest \<noteq> [] \<Longrightarrow> pending (x # rest) = pending rest"
  by (simp add: pending_def)

lemma errors_logged_append:
  "errors_logged xs \<Longrightarrow> \<not> pending xs \<Longrightarrow> errors_logged ys \<Longrightarrow> errors_logged (xs @ ys)"
proof (induction xs)
  case Nil
  then show ?case by simp
next
  case (Cons ev rest)
  show ?case
  proof (cases "rest = []")
    case True
    with Cons.prems show ?thesis
      by (auto simp: pending_def split: event.splits option.splits)
  next
    case False
    with Cons.prems have "\<not> pending rest" by (simp add: pending_Cons)
    with Cons have "errors_logged (rest @ ys)" by simp
    with Cons.prems(1) show ?thesis
      by (auto simp: logs_error_append split: event.splits option.splits)
  qed
qed

lemma pending_append: "ys \<noteq> [] \<Longrightarrow> pending (xs @ ys) = pending ys"
  by (simp add: pending_def)

lemma drop_suffix: "drop (length (pre @ err) - length err) (pre @ err) = err"
  by simp

lemma logged_step:
  assumes "errors_logged (trace p) \<and> \<not> pending (trace p)"
  shows "errors_logged (trace (step e p c)) \<and> \<not> pending (trace (step e p c))"
proof (cases "exit_code p = None")
  case False
  with assms show ?thesis by (simp add: step_def)
next
  case True
  show ?thesis
  proof (cases c)
    case Signal
    with True assms show ?thesis
      by (auto simp: step_defs errors_logged_append pending_def)
  next
    case (Coordinator res)
    with True assms show ?thesis
      by (cases "cpc p"; cases res)
         (auto simp: step_defs errors_logged_append pending_def)
  next
    case (Main res)
    with True assms show ?thesis
      by (cases "mpc p"; cases res)
         (auto simp: step_defs errors_logged_append pending_def)
  next
    case LivenessListener
    with True assms show ?thesis by (auto simp: step_defs)
  next
    case (ListenFails srv err)
    with True assms show ?thesis
      by (cases srv) (auto simp: step_defs errors_logged_append pending_def)
  qed
qed

lemma logged_run: "errors_logged (trace (run e cs)) \<and> \<not> pending (trace (run e cs))"
proof (induction cs rule: rev_induct)
  case Nil
  then show ?case by (simp add: run_Nil started_def pending_def)
next
  case (snoc c cs)
  then show ?case unfolding run_snoc by (rule logged_step)
qed


lemma run_append: "run e (cs @ ds) = foldl (step e) (run e cs) ds"
  by (simp add: run_def)

lemma exited_stays: "exit_code p \<noteq> None \<Longrightarrow> foldl (step e) p ds = p"
  by (induction ds) (simp_all add: step_def)

lemma consistent_foldl: "consistent e p \<Longrightarrow> consistent e (foldl (step e) p ds)"
  by (induction ds arbitrary: p) (simp_all add: consistent_step)

lemma coordinator_advances:
  assumes "exit_code p = None" and "cpc p \<noteq> C_WaitSignal"
  shows "exit_code (step e p (Coordinator r)) = None
       \<and> cpc (step e p (Coordinator r)) \<noteq> C_WaitSignal
       \<and> coordinator_left (cpc (step e p (Coordinator r))) \<le> coordinator_left (cpc p) - 1"
  using assms by (cases "cpc p") (simp_all add: step_defs)

lemma coordinator_finishes:
  assumes "exit_code p = None" and "cpc p \<noteq> C_WaitSignal" and "coordinator_left (cpc p) \<le> n"
  shows "cpc (foldl (step e) p (replicate n (Coordinator r))) = C_Done
       \<and> exit_code (foldl (step e) p (replicate n (Coordinator r))) = None"
  using assms
proof (induction n arbitrary: p)
  case 0
  then show ?case by (cases "cpc p") simp_all
next
  case (Suc n)
  let ?q = "step e p (Coordinator r)"
  note adv = coordinator_advances [OF Suc.prems(1,2), of e r]
  from adv have "exit_code ?q = None" "cpc ?q \<noteq> C_WaitSignal" by simp_all
  moreover from adv Suc.prems(3) have "coordinator_left (cpc ?q) \<le> n" by linarith
  ultimately
  show ?case using Suc.IH [of ?q] by simp
qed

lemma main_advances:
  assumes "consistent e p" and "exit_code p = None" and "cpc p = C_Done"
  shows "(mpc p = M_Sync \<longrightarrow> exit_code (step e p (Main r)) = Some (Status 0))
       \<and> (mpc p \<noteq> M_Sync \<longrightarrow>
            exit_code (step e p (Main r)) = None \<and> cpc (step e p (Main r)) = C_Done
            \<and> main_left (mpc (step e p (Main r))) \<le> main_left (mpc p) - 1)"
  using assms by (cases "mpc p") (simp_all add: consistent_def step_defs)

lemma main_finishes:
  assumes "consistent e p" and "exit_code p = None" and "cpc p = C_Done"
    and "main_left (mpc p) \<le> n"
  shows "exit_code (foldl (step e) p (replicate n (Main r))) = Some (Status 0)"
  using assms
proof (induction n arbitrary: p)
  case 0
  then show ?case by (cases "mpc p") (simp_all add: consistent_def)
next
  case (Suc n)
  let ?q = "step e p (Main r)"
  note adv = main_advances [OF Suc.prems(1,2,3), of r]
  show ?case
  proof (cases "mpc p = M_Sync")
    case True
    with adv have "exit_code ?q = Some (Status 0)" by simp
    then have "foldl (step e) ?q (replicate n (Main r)) = ?q \<and> exit_code ?q = Some (Status 0)"
      using exited_stays [of ?q e] by simp
    then show ?thesis by simp
  next
    case False
    with adv have "exit_code ?q = None" "cpc ?q = C_Done" by simp_all
    moreover from False adv Suc.prems(4) have "main_left (mpc ?q) \<le> n" by linarith
    moreover have "consistent e ?q" using Suc.prems(1) by (rule consistent_step)
    ultimately show ?thesis using Suc.IH [of ?q] by simp
  qed
qed

lemma drain_completes:
  assumes "consistent e p" and "exit_code p = None" and "cpc p \<noteq> C_WaitSignal"
  shows "exit_code (foldl (step e) p (drain r1 r2)) = Some (Status 0)"
proof -
  let ?q = "foldl (step e) p (replicate 7 (Coordinator r1))"
  have "coordinator_left (cpc p) \<le> 7" using assms(3) by (cases "cpc p") simp_all
  then have q: "cpc ?q = C_Done" "exit_code ?q = None"
    using coordinator_finishes [OF assms(2,3), of 7 e r1] by simp_all
  have c: "consistent e ?q" using assms(1) by (rule consistent_foldl)
  have "main_left (mpc ?q) \<le> 7" by (cases "mpc ?q") simp_all
  then have "exit_code (foldl (step e) ?q (replicate 7 (Main r2))) = Some (Status 0)"
    using c q by (intro main_finishes)
  then show ?thesis by (simp add: drain_def)
qed

lemma signalled_step:
  "exit_code p \<noteq> None \<or> cpc p \<noteq> C_WaitSignal \<Longrightarrow>
   exit_code (step e p c) \<noteq> None \<or> cpc (step e p c) \<noteq> C_WaitSignal"
  by (cases c; cases "cpc p"; cases "mpc p")
     (auto simp: step_defs split: server.splits)

lemma signal_taken:
  "exit_code (step e p Signal) \<noteq> None \<or> cpc (step e p Signal) \<noteq> C_WaitSignal"
  by (auto simp: step_defs)

lemma signalled_run:
  "Signal \<in> set cs \<Longrightarrow> exit_code (run e cs) \<noteq> None \<or> cpc (run e cs) \<noteq> C_WaitSignal"
proof (induction cs rule: rev_induct)
  case Nil
  then show ?case by simp
next
  case (snoc c cs)
  show ?case
  proof (cases "c = Signal")
    case True
    then show ?thesis unfolding run_snoc using signal_taken by simp
  next
    case False
    with snoc.prems have "Signal \<in> set cs" by simp
    then show ?thesis unfolding run_snoc by (intro signalled_step snoc.IH)
  qed
qed

lemma failure_step:
  "exit_code (step e p c) = Some (Status 1) \<Longrightarrow> exit_code p \<noteq> Some (Status 1) \<Longrightarrow> \<exists>srv err. c = ListenFails srv err"
  by (cases c; cases "cpc p"; cases "mpc p")
     (auto simp: step_defs split: server.splits if_splits)

lemma failure_run:
  "exit_code (run e cs) = Some (Status 1) \<Longrightarrow> \<exists>srv err. ListenFails srv err \<in> set cs"
proof (induction cs rule: rev_induct)
  case Nil
  then show ?case by (simp add: run_Nil started_def)
next
  case (snoc c cs)
  show ?case
  proof (cases "exit_code (run e cs) = Some (Status 1)")
    case True
    with snoc.IH show ?thesis by auto
  next
    case False
    with snoc.prems have "\<exists>srv err. c = ListenFails srv err"
      unfolding run_snoc by (intro failure_step)
    then show ?thesis by auto
  qed
qed

lemma signals_step:
  "(cpc (step e p c) \<noteq> C_WaitSignal \<longrightarrow> cpc p \<noteq> C_WaitSignal \<or> c = Signal)
   \<and> (exit_code (step e p c) = Some BySignal \<longrightarrow>
         exit_code p = Some BySignal \<or> c = Signal \<and> cpc p \<noteq> C_WaitSignal)"
  by (cases c; cases "cpc p"; cases "mpc p")
     (auto simp: step_defs split: server.splits if_splits)

lemma signals_run:
  "(cpc (run e cs) \<noteq> C_WaitSignal \<longrightarrow> 1 \<le> length (filter ((=) Signal) cs))
   \<and> (exit_code (run e cs) = Some BySignal \<longrightarrow> 2 \<le> length (filter ((=) Signal) cs))"
proof (induction cs rule: rev_induct)
  case Nil
  then show ?case by (simp add: run_Nil started_def)
next
  case (snoc c cs)
  from signals_step [of e "run e cs" c] snoc.IH show ?case
    unfolding run_snoc by (cases "c = Signal") auto
qed

lemma ends_run:
  "exit_code (run e cs) = None \<or> exit_code (run e cs) = Some (Status 0)
   \<or> exit_code (run e cs) = Some (Status 1) \<or> exit_code (run e cs) = Some BySignal"
  using recorded_run [of e cs] unfolding recorded_def by blast

lemma completes_after_signal:
  assumes "Signal \<in> set cs"
  shows "exit_code (run e (cs @ drain r1 r2)) \<noteq> None
       \<and> ((\<forall>srv err. ListenFails srv err \<notin> set cs) \<longrightarrow>
            exit_code (run e (cs @ drain r1 r2)) = Some (Status 0)
            \<or> exit_code (run e (cs @ drain r1 r2)) = Some BySignal
              \<and> 2 \<le> length (filter ((=) Signal) cs))"
proof (cases "exit_code (run e cs) = None")
  case True
  with signalled_run [OF assms, of e] have "cpc (run e cs) \<noteq> C_WaitSignal" by simp
  with True have "exit_code (run e (cs @ drain r1 r2)) = Some (Status 0)"
    unfolding run_append by (intro drain_completes consistent_run)
  then show ?thesis by simp
next
  case False
  then have same: "run e (cs @ drain r1 r2) = run e cs"
    unfolding run_append by (rule exited_stays)
  have "exit_code (run e cs) = Some (Status 0)
        \<or> exit_code (run e cs) = Some BySignal \<and> 2 \<le> length (filter ((=) Signal) cs)"
    if "\<forall>srv err. ListenFails srv err \<notin> set cs"
  proof -
    from that failure_run [of e cs] have "exit_code (run e cs) \<noteq> Some (Status 1)" by blast
    with False ends_run [of e cs] signals_run [of e cs] show ?thesis by auto
  qed
  with False same show ?thesis by simp
qed

lemma staged_step:
  assumes "consistent e p"
    and "outline (trace p) = coordinator_stages e (cpc p) @ main_stages (mpc p)"
  shows "outline (trace (step e p c)) =
         coordinator_stages e (cpc (step e p c)) @ main_stages (mpc (step e p c))"
proof (cases "exit_code p = None")
  case False
  with assms(2) show ?thesis by (simp add: step_def)
next
  case True
  show ?thesis
  proof (cases c)
    case Signal
    with True assms show ?thesis
      by (cases "mpc p") (auto simp: outline_def delay_def consistent_def step_defs)
  next
    case (Coordinator res)
    with True assms show ?thesis
      by (cases "cpc p"; cases "mpc p"; cases res)
         (auto simp: outline_def delay_def consistent_def step_defs)
  next
    case (Main res)
    with True assms show ?thesis
      by (cases "cpc p"; cases "mpc p"; cases res)
         (auto simp: outline_def delay_def consistent_def step_defs)
  next
    case LivenessListener
    with True assms show ?thesis by (auto simp: step_defs)
  next
    case (ListenFails srv err)
    with True assms show ?thesis
      by (cases srv) (auto simp: outline_def step_defs)
  qed
qed

lemma staged_run:
  "outline (trace (run e cs)) =
   coordinator_stages e (cpc (run e cs)) @ main_stages (mpc (run e cs))"
proof (induction cs rule: rev_induct)
  case Nil
  then show ?case by (simp add: run_Nil started_def outline_def)
next
  case (snoc c cs)
  then show ?case unfolding run_snoc by (intro staged_step consistent_run)
qed



lemma control_step:
  assumes "control p = control q"
  shows "control (step e p c) = control (step e q (without_error c))"
proof (cases c)
  case Signal
  with assms show ?thesis by (auto simp: control_def step_defs)
next
  case (Coordinator res)
  with assms show ?thesis
    by (cases "cpc p"; cases res) (auto simp: control_def step_defs)
next
  case (Main res)
  with assms show ?thesis
    by (cases "mpc p"; cases res) (auto simp: control_def step_defs)
next
  case LivenessListener
  with assms show ?thesis by (auto simp: control_def step_defs)
next
  case (ListenFails srv err)
  with assms show ?thesis by (cases srv) (auto simp: control_def step_defs)
qed

lemma control_run: "control (run e cs) = control (run e (map without_error cs))"
proof (induction cs rule: rev_induct)
  case Nil
  then show ?case by simp
next
  case (snoc c cs)
  have "run e (map without_error (cs @ [c])) =
        step e (run e (map without_error cs)) (without_error c)"
    by (simp add: run_def)
  with control_step [OF snoc.IH, of e c] show ?case by (simp only: run_snoc)
qed

lemma before_nth:
  assumes "before A B xs" and "\<And>x. A x \<Longrightarrow> \<not> B x" and "i < length xs" and "B (xs ! i)"
  shows "\<exists>j < i. A (xs ! j)"
  using assms(1,3,4)
proof (induction xs arbitrary: i)
  case Nil
  then show ?case by simp
next
  case (Cons x xs)
  show ?case
  proof (cases "A x")
    case True
    with assms(2) have "\<not> B x" by simp
    with Cons.prems(3) have "0 < i" by (cases i) auto
    with True show ?thesis by auto
  next
    case False
    with Cons.prems(1) have nb: "\<not> B x" and rest: "before A B xs" by simp_all
    from nb Cons.prems(3) obtain k where k: "i = Suc k" by (cases i) auto
    with Cons.prems have "k < length xs" "B (xs ! k)" by simp_all
    with Cons.IH [OF rest] obtain j where "j < k" "A (xs ! j)" by blast
    with k have "Suc j < i" "A ((x # xs) ! Suc j)" by simp_all
    then show ?thesis by blast
  qed
qed


lemmas run_defs = run_def drain_def step_defs started_def IsDevelopment_def Getenv_def
  eval_nat_numeral



text \<open>
  A second signal that arrives once the coordinator has returned, while the liveness
  server is still being shut down, ends the process at once: the liveness server's
  shutdown has been called and has not returned.
\<close>

lemma second_signal_kills:
  "(let cs = Signal # replicate 7 (Coordinator None) @ replicate 5 (Main None) @ [Signal] in
      exit_code (run [] cs) = Some BySignal
      \<and> trace (run [] cs) =
          [SignalReceived, Logged Debug ''received shutdown signal'', Slept 10,
           Logged Debug ''server shutting down...'', ShutdownCalled Primary 20,
           ShutdownReturned Primary None, ChannelClosed,
           Logged Info ''server shut down cleanly'',
           Logged Debug ''liveness server shutting down...'', ShutdownCalled Liveness 5,
           Killed])"
  by (simp add: run_defs)

text \<open>
  C8.  In every run each server's shutdown is called at most once, and every error a
  shutdown call returned is followed at once by its log entry at level error.  Whatever
  the two calls return, once the signal has arrived the coordinator and the main
  goroutine run to their ends and the process ends: with status 0 unless a listener
  failed or a second signal killed the process.  Status 1 comes from a failing listener
  only, never from a shutdown error, and the end by a signal from a second signal only.
  What the shutdown calls return changes neither where the process stands nor the
  stages it has recorded: the same schedule with every shutdown call returning nil
  gives the same program counters, flags, exit status and stages.
\<close>

theorem shutdown_errors_do_not_stop_the_sequence:
  "length (filter (is_called Primary) (trace (run e cs))) \<le> 1
   \<and> length (filter (is_called Liveness) (trace (run e cs))) \<le> 1
   \<and> errors_logged (trace (run e cs))
   \<and> (Signal \<in> set cs \<longrightarrow> exit_code (run e (cs @ drain r1 r2)) \<noteq> None)
   \<and> (Signal \<in> set cs \<and> (\<forall>srv err. ListenFails srv err \<notin> set cs) \<longrightarrow>
         exit_code (run e (cs @ drain r1 r2)) = Some (Status 0)
         \<or> exit_code (run e (cs @ drain r1 r2)) = Some BySignal
           \<and> 2 \<le> length (filter ((=) Signal) cs))
   \<and> (exit_code (run e cs) = None \<or> exit_code (run e cs) = Some (Status 0)
       \<or> exit_code (run e cs) = Some (Status 1) \<and> (\<exists>srv err. ListenFails srv err \<in> set cs)
       \<or> exit_code (run e cs) = Some BySignal \<and> 2 \<le> length (filter ((=) Signal) cs))
   \<and> control (run e (map without_error cs)) = control (run e cs)
   \<and> outline (trace (run e (map without_error cs))) = outline (trace (run e cs))"
proof -
  have r: "recorded e (run e cs)" by (rule recorded_run)
  then have "length (filter (is_called Primary) (trace (run e cs))) \<le> 1"
    "length (filter (is_called Liveness) (trace (run e cs))) \<le> 1"
    by (simp_all add: recorded_def)
  moreover have "errors_logged (trace (run e cs))" using logged_run [of e cs] by simp
  moreover have "exit_code (run e cs) = None \<or> exit_code (run e cs) = Some (Status 0)
       \<or> exit_code (run e cs) = Some (Status 1) \<and> (\<exists>srv err. ListenFails srv err \<in> set cs)
       \<or> exit_code (run e cs) = Some BySignal \<and> 2 \<le> length (filter ((=) Signal) cs)"
    using ends_run [of e cs] failure_run [of e cs] signals_run [of e cs] by auto
  moreover have same: "control (run e (map without_error cs)) = control (run e cs)"
    by (simp add: control_run [of e cs])
  moreover have "outline (trace (run e (map without_error cs))) = outline (trace (run e cs))"
    using same unfolding staged_run by (simp add: control_def)
  ultimately show ?thesis using completes_after_signal [of cs e r1 r2] by blast
qed

theorem shutdown_errors_do_not_stop_the_sequence_witness:
  "exit_code (run [] ([Signal] @ drain (Some ''context deadline exceeded'') (Some ''closed''))) =
     Some (Status 0)
   \<and> trace (run [] ([Signal] @ drain (Some ''context deadline exceeded'') (Some ''closed''))) =
     [SignalReceived, Logged Debug ''received shutdown signal'', Slept 10,
      Logged Debug ''server shutting down...'', ShutdownCalled Primary 20,
      ShutdownReturned Primary (Some ''context deadline exceeded''),
      Logged Error ''failed to shut down gracefully: context deadline exceeded'',
      ChannelClosed, Logged Info ''server shut down cleanly'',
      Logged Debug ''liveness server shutting down...'', ShutdownCalled Liveness 5,
      ShutdownReturned Liveness (Some ''closed''),
      Logged Error ''failed to gracefully shutdown: closed'', Exited 0]
   \<and> errors_logged (trace (run [] ([Signal] @ drain (Some ''context deadline exceeded'') (Some ''closed''))))"
proof -
  have "exit_code (run [] ([Signal] @ drain (Some ''context deadline exceeded'') (Some ''closed''))) =
     Some (Status 0)"
    using shutdown_errors_do_not_stop_the_sequence [of "[]" "[Signal]"
        "Some ''context deadline exceeded''" "Some ''closed''"]
    by simp
  moreover have "errors_logged (trace (run [] ([Signal] @ drain (Some ''context deadline exceeded'') (Some ''closed''))))"
    using shutdown_errors_do_not_stop_the_sequence [of "[]"
        "[Signal] @ drain (Some ''context deadline exceeded'') (Some ''closed'')"]
    by blast
  moreover have "trace (run [] ([Signal] @ drain (Some ''context deadline exceeded'') (Some ''closed''))) =
     [SignalReceived, Logged Debug ''received shutdown signal'', Slept 10,
      Logged Debug ''server shutting down...'', ShutdownCalled Primary 20,
      ShutdownReturned Primary (Some ''context deadline exceeded''),
      Logged Error ''failed to shut down gracefully: context deadline exceeded'',
      ChannelClosed, Logged Info ''server shut down cleanly'',
      Logged Debug ''liveness server shutting down...'', ShutdownCalled Liveness 5,
      ShutdownReturned Liveness (Some ''closed''),
      Logged Error ''failed to gracefully shutdown: closed'', Exited 0]"
    by (simp add: run_defs)
  ultimately show ?thesis by blast
qed

end
